theory Spec2Isabelle
  imports Main "HOL-Library.Word"
begin

section \<open>Strings of the host language\<close>

text \<open>
  A JavaScript string is a sequence of 16-bit code units. \<open>js\<close> turns an ASCII literal
  into such a sequence, so that inputs can be written down readably.
\<close>

type_synonym unit16 = "16 word"
type_synonym jsstring = "unit16 list"

definition js :: "string \<Rightarrow> jsstring" where
  "js s = map of_char s"

definition backtick :: unit16 where
  "backtick = 0x60"

text \<open>
  \<open>String.prototype.trim\<close> removes the code units that are white space or line
  terminators of the language from both ends of the string.
\<close>

definition is_ws :: "unit16 \<Rightarrow> bool" where
  "is_ws c \<longleftrightarrow>
     c = 0x09 \<or> c = 0x0A \<or> c = 0x0B \<or> c = 0x0C \<or> c = 0x0D \<or> c = 0x20 \<or> c = 0xA0
     \<or> c = 0x1680 \<or> (0x2000 \<le> c \<and> c \<le> 0x200A) \<or> c = 0x2028 \<or> c = 0x2029
     \<or> c = 0x202F \<or> c = 0x205F \<or> c = 0x3000 \<or> c = 0xFEFF"

definition trim :: "jsstring \<Rightarrow> jsstring" where
  "trim s = rev (dropWhile is_ws (rev (dropWhile is_ws s)))"

section \<open>The command extractor of \<open>generateCommand\<close>\<close>

text \<open>
  \<open>command.includes('`')\<close>: the searched string is one code unit long, so the test is
  whether that code unit occurs.
\<close>

definition includes_backtick :: "jsstring \<Rightarrow> bool" where
  "includes_backtick s \<longleftrightarrow> backtick \<in> set s"

text \<open>
  The regular expression \<open>/`([^`]*)`/\<close>. \<open>star_then_tick acc s\<close> runs the part after
  the opening backtick on \<open>s\<close>: the greedy star takes a code unit that is not a backtick
  whenever there is one and gives it back if the rest then fails; \<open>acc\<close> is what the
  group has captured so far. \<open>match_at\<close> tries the whole expression at the start of its
  argument, and \<open>match_first\<close> moves the start to the right until one attempt
  succeeds, as \<open>String.prototype.match\<close> does for an expression without the global flag.
  The result is capture group 1 of the leftmost match, \<open>None\<close> for \<open>null\<close>.
\<close>

fun star_then_tick :: "jsstring \<Rightarrow> jsstring \<Rightarrow> jsstring option" where
  "star_then_tick acc [] = None"
| "star_then_tick acc (c # cs) =
     (if c \<noteq> backtick then
        (case star_then_tick (acc @ [c]) cs of
           Some g \<Rightarrow> Some g
         | None \<Rightarrow> None)
      else Some acc)"

fun match_at :: "jsstring \<Rightarrow> jsstring option" where
  "match_at [] = None"
| "match_at (c # cs) = (if c = backtick then star_then_tick [] cs else None)"

fun match_first :: "jsstring \<Rightarrow> jsstring option" where
  "match_first [] = None"
| "match_first (c # cs) =
     (case match_at (c # cs) of
        Some g \<Rightarrow> Some g
      | None \<Rightarrow> match_first cs)"

text \<open>
  \<open>command.replace(/```/g, '')\<close>: every occurrence of three backticks in a row is
  deleted, scanning from the left and continuing after each deleted occurrence.
\<close>

fun remove_fences :: "jsstring \<Rightarrow> jsstring" where
  "remove_fences (a # b # c # rest) =
     (if a = backtick \<and> b = backtick \<and> c = backtick then remove_fences rest
      else a # remove_fences (b # c # rest))"
| "remove_fences s = s"

text \<open>
  The clean-up of lines 170 to 175. In \<open>match(...)?.[1] || command\<close> the original text
  is taken both when there is no match and when the captured group is the empty string,
  which is falsy.
\<close>

definition extract_command :: "jsstring \<Rightarrow> jsstring" where
  "extract_command command =
     (if includes_backtick command then
        (case match_first command of
           None \<Rightarrow> command
         | Some g \<Rightarrow> if g = [] then command else g)
      else trim (remove_fences command))"

text \<open>
  \<open>data.response\<close> comes out of the parsed reply of the service and need not be a
  string. On any other value one of the method calls of the clean-up raises a
  \<open>TypeError\<close>: \<open>undefined\<close>, \<open>null\<close>, numbers, booleans and objects have no
  \<open>includes\<close>, and an array has \<open>includes\<close> but neither \<open>match\<close> nor \<open>replace\<close>.
\<close>

datatype response_field = RString jsstring | RNotString

datatype js_error = TypeError

fun cleanup :: "response_field \<Rightarrow> js_error + jsstring" where
  "cleanup (RString s) = Inr (extract_command s)"
| "cleanup RNotString = Inl TypeError"

text \<open>A string has white space at an edge when its first or its last code unit is white space.\<close>

definition edge_ws :: "jsstring \<Rightarrow> bool" where
  "edge_ws s \<longleftrightarrow> s \<noteq> [] \<and> (is_ws (hd s) \<or> is_ws (last s))"

section \<open>The preference file: JSON text\<close>

text \<open>
  The values \<open>JSON.parse\<close> can return. A number is kept as the decimal it was written
  as: \<open>JNum neg d e\<close> stands for the digits \<open>d\<close> times ten to the power \<open>e\<close>, negated
  when \<open>neg\<close> holds. An object is the list of its own properties.
\<close>

datatype jsvalue =
    JNull
  | JBool bool
  | JNum bool nat int
  | JStr jsstring
  | JArr "jsvalue list"
  | JObj "(jsstring \<times> jsvalue) list"

text \<open>
  \<open>JSON.stringify\<close> quotes a string code point by code point: a leading surrogate
  directly followed by a trailing one is one code point and is copied; the characters with a
  short escape get it; other control characters and surrogates that stand alone are written
  as a backslash, \<open>u\<close> and four lower-case hexadecimal digits; every other code unit is copied.
\<close>

definition is_high :: "unit16 \<Rightarrow> bool" where
  "is_high c \<longleftrightarrow> 0xD800 \<le> c \<and> c \<le> 0xDBFF"

definition is_low :: "unit16 \<Rightarrow> bool" where
  "is_low c \<longleftrightarrow> 0xDC00 \<le> c \<and> c \<le> 0xDFFF"

definition hex_char :: "nat \<Rightarrow> unit16" where
  "hex_char n = (if n < 10 then 0x30 + of_nat n else 0x57 + of_nat n)"

definition unicode_escape :: "unit16 \<Rightarrow> jsstring" where
  "unicode_escape c =
     (let n = unat c
      in [0x5C, 0x75, hex_char (n div 4096), hex_char (n div 256 mod 16),
          hex_char (n div 16 mod 16), hex_char (n mod 16)])"

definition quote_unit :: "unit16 \<Rightarrow> jsstring" where
  "quote_unit c =
     (if c = 0x08 then [0x5C, 0x62]
      else if c = 0x09 then [0x5C, 0x74]
      else if c = 0x0A then [0x5C, 0x6E]
      else if c = 0x0C then [0x5C, 0x66]
      else if c = 0x0D then [0x5C, 0x72]
      else if c = 0x22 then [0x5C, 0x22]
      else if c = 0x5C then [0x5C, 0x5C]
      else if c < 0x20 \<or> is_high c \<or> is_low c then unicode_escape c
      else [c])"

fun quote_body :: "jsstring \<Rightarrow> jsstring" where
  "quote_body [] = []"
| "quote_body (c # cs) =
     (if is_high c \<and> cs \<noteq> [] \<and> is_low (hd cs) then c # hd cs # quote_body (tl cs)
      else quote_unit c @ quote_body cs)"

definition QuoteJSONString :: "jsstring \<Rightarrow> jsstring" where
  "QuoteJSONString s = 0x22 # quote_body s @ [0x22]"

text \<open>
  \<open>saveConfig\<close> is only ever called with \<open>{ model: selectedModel }\<close>. With the
  arguments \<open>(config, null, 2)\<close> the serialisation of such an object is an opening brace,
  a line feed, two spaces, the quoted key, a colon and a space, the quoted value, a line feed
  and the closing brace. \<open>pref_value\<close> is the same object as a value of the language.
\<close>

datatype preference = Preference (model: jsstring)

definition stringify :: "preference \<Rightarrow> jsstring" where
  "stringify p =
     [0x7B, 0x0A, 0x20, 0x20] @ QuoteJSONString (js ''model'') @ [0x3A, 0x20]
       @ QuoteJSONString (model p) @ [0x0A, 0x7D]"

definition pref_value :: "preference \<Rightarrow> jsvalue" where
  "pref_value p = JObj [(js ''model'', JStr (model p))]"

text \<open>
  \<open>JSON.parse\<close>, in two passes: the text is cut into tokens, and the tokens are read by
  a machine with a stack of the arrays and objects that are still open. Any text outside the
  JSON grammar gives \<open>None\<close>, which stands for the \<open>SyntaxError\<close>.
\<close>

datatype token =
    TLBrace | TRBrace | TLBrack | TRBrack | TColon | TComma
  | TString jsstring | TNumber bool nat int | TTrue | TFalse | TNull

definition hex_val :: "unit16 \<Rightarrow> nat option" where
  "hex_val c =
     (if 0x30 \<le> c \<and> c \<le> 0x39 then Some (unat c - 0x30)
      else if 0x61 \<le> c \<and> c \<le> 0x66 then Some (unat c - 0x57)
      else if 0x41 \<le> c \<and> c \<le> 0x46 then Some (unat c - 0x37)
      else None)"

definition hex4 :: "unit16 \<Rightarrow> unit16 \<Rightarrow> unit16 \<Rightarrow> unit16 \<Rightarrow> unit16 option" where
  "hex4 a b c d =
     (case (hex_val a, hex_val b, hex_val c, hex_val d) of
        (Some p, Some q, Some r, Some s) \<Rightarrow> Some (of_nat (((p * 16 + q) * 16 + r) * 16 + s))
      | _ \<Rightarrow> None)"

definition simple_escape :: "unit16 \<Rightarrow> unit16 option" where
  "simple_escape e =
     (if e = 0x22 then Some 0x22
      else if e = 0x5C then Some 0x5C
      else if e = 0x2F then Some 0x2F
      else if e = 0x62 then Some 0x08
      else if e = 0x66 then Some 0x0C
      else if e = 0x6E then Some 0x0A
      else if e = 0x72 then Some 0x0D
      else if e = 0x74 then Some 0x09
      else None)"

fun lex_string :: "jsstring \<Rightarrow> jsstring \<Rightarrow> (jsstring \<times> jsstring) option" where
  "lex_string acc [] = None"
| "lex_string acc (c # cs) =
     (if c = 0x22 then Some (acc, cs)
      else if c = 0x5C then
        (case cs of
           [] \<Rightarrow> None
         | e # r \<Rightarrow>
             if e = 0x75 then
               (case r of
                  h1 # h2 # h3 # h4 # r' \<Rightarrow>
                    (case hex4 h1 h2 h3 h4 of
                       None \<Rightarrow> None
                     | Some u \<Rightarrow> lex_string (acc @ [u]) r')
                | _ \<Rightarrow> None)
             else
               (case simple_escape e of
                  None \<Rightarrow> None
                | Some u \<Rightarrow> lex_string (acc @ [u]) r))
      else if c < 0x20 then None
      else lex_string (acc @ [c]) cs)"


text \<open>
  A number is an optional minus sign, an integer part without superfluous leading zero, an
  optional fraction and an optional exponent.
\<close>

definition is_digit :: "unit16 \<Rightarrow> bool" where
  "is_digit c \<longleftrightarrow> 0x30 \<le> c \<and> c \<le> 0x39"

definition digits_val :: "jsstring \<Rightarrow> nat" where
  "digits_val ds = foldl (\<lambda>a d. a * 10 + (unat d - 0x30)) 0 ds"

definition lex_int :: "jsstring \<Rightarrow> (jsstring \<times> jsstring) option" where
  "lex_int s =
     (case s of
        [] \<Rightarrow> None
      | c # cs \<Rightarrow>
          if c = 0x30 then Some ([c], cs)
          else if is_digit c then Some (takeWhile is_digit s, dropWhile is_digit s)
          else None)"

definition lex_frac :: "jsstring \<Rightarrow> (jsstring \<times> jsstring) option" where
  "lex_frac s =
     (case s of
        [] \<Rightarrow> Some ([], s)
      | c # cs \<Rightarrow>
          if c = 0x2E then
            (if takeWhile is_digit cs = [] then None
             else Some (takeWhile is_digit cs, dropWhile is_digit cs))
          else Some ([], s))"

definition lex_exp :: "jsstring \<Rightarrow> (int \<times> jsstring) option" where
  "lex_exp s =
     (case s of
        [] \<Rightarrow> Some (0, s)
      | c # cs \<Rightarrow>
          if c = 0x65 \<or> c = 0x45 then
            (let neg = (cs \<noteq> [] \<and> hd cs = 0x2D);
                 ds = (if cs \<noteq> [] \<and> (hd cs = 0x2D \<or> hd cs = 0x2B) then tl cs else cs)
             in if takeWhile is_digit ds = [] then None
                else Some ((if neg then - int (digits_val (takeWhile is_digit ds))
                            else int (digits_val (takeWhile is_digit ds))),
                           dropWhile is_digit ds))
          else Some (0, s))"

definition lex_number :: "jsstring \<Rightarrow> (token \<times> jsstring) option" where
  "lex_number s =
     (let neg = (s \<noteq> [] \<and> hd s = 0x2D);
          s1 = (if neg then tl s else s)
      in case lex_int s1 of
           None \<Rightarrow> None
         | Some (ip, s2) \<Rightarrow>
             (case lex_frac s2 of
                None \<Rightarrow> None
              | Some (fp, s3) \<Rightarrow>
                  (case lex_exp s3 of
                     None \<Rightarrow> None
                   | Some (e, s4) \<Rightarrow>
                       Some (TNumber neg (digits_val (ip @ fp)) (e - int (length fp)), s4))))"

definition next_token :: "jsstring \<Rightarrow> (token \<times> jsstring) option" where
  "next_token s =
     (case s of
        [] \<Rightarrow> None
      | c # cs \<Rightarrow>
          if c = 0x7B then Some (TLBrace, cs)
          else if c = 0x7D then Some (TRBrace, cs)
          else if c = 0x5B then Some (TLBrack, cs)
          else if c = 0x5D then Some (TRBrack, cs)
          else if c = 0x3A then Some (TColon, cs)
          else if c = 0x2C then Some (TComma, cs)
          else if c = 0x22 then
            (case lex_string [] cs of
               None \<Rightarrow> None
             | Some (str, rest) \<Rightarrow> Some (TString str, rest))
          else if c = 0x2D \<or> is_digit c then lex_number s
          else if take 4 s = js ''true'' then Some (TTrue, drop 4 s)
          else if take 5 s = js ''false'' then Some (TFalse, drop 5 s)
          else if take 4 s = js ''null'' then Some (TNull, drop 4 s)
          else None)"

definition json_ws :: "unit16 \<Rightarrow> bool" where
  "json_ws c \<longleftrightarrow> c = 0x09 \<or> c = 0x0A \<or> c = 0x0D \<or> c = 0x20"

text \<open>
  Every token takes at least one code unit, so cutting a text into tokens ends.
\<close>

lemma lex_string_shorter: "lex_string acc s = Some (str, rest) \<Longrightarrow> length rest < length s"
proof (induction acc s rule: lex_string.induct)
  case (1 acc)
  then show ?case by simp
next
  case (2 acc c cs)
  show ?case
  proof (cases "c = 0x22")
    case True
    with "2.prems" show ?thesis by simp
  next
    case quote: False
    show ?thesis
    proof (cases "c = 0x5C")
      case False
      with quote "2.prems" "2.IH"(3) show ?thesis
        by (fastforce split: if_splits)
    next
      case True
      with quote "2.prems" "2.IH"(1,2) show ?thesis
        by (fastforce split: if_splits list.splits option.splits)
    qed
  qed
qed


lemma lex_int_shorter: "lex_int s = Some (ip, rest) \<Longrightarrow> length rest < length s"
  by (auto simp: lex_int_def less_Suc_eq_le length_dropWhile_le split: list.splits if_splits)

lemma lex_frac_le: "lex_frac s = Some (fp, rest) \<Longrightarrow> length rest \<le> length s"
  by (auto simp: lex_frac_def le_Suc_eq length_dropWhile_le split: list.splits if_splits)

lemma lex_exp_le: "lex_exp s = Some (e, rest) \<Longrightarrow> length rest \<le> length s"
proof -
  assume a: "lex_exp s = Some (e, rest)"
  have tl_le: "length (dropWhile is_digit (tl cs)) \<le> length cs" for cs
    using length_dropWhile_le [of is_digit "tl cs"] by simp
  have plain: "length (dropWhile is_digit cs) \<le> length cs" for cs
    by (rule length_dropWhile_le)
  show ?thesis
  proof (cases s)
    case Nil
    with a show ?thesis by (simp add: lex_exp_def)
  next
    case (Cons c cs)
    show ?thesis
    proof (cases "c = 0x65 \<or> c = 0x45")
      case False
      with a Cons show ?thesis by (simp add: lex_exp_def)
    next
      case True
      with a Cons have "rest = dropWhile is_digit (tl cs) \<or> rest = dropWhile is_digit cs"
        by (auto simp: lex_exp_def Let_def split: if_splits)
      with Cons tl_le [of cs] plain [of cs] show ?thesis
        by (auto simp: le_Suc_eq)
    qed
  qed
qed

lemma lex_number_shorter: "lex_number s = Some (t, rest) \<Longrightarrow> length rest < length s"
proof -
  assume a: "lex_number s = Some (t, rest)"
  define s1 where "s1 = (if s \<noteq> [] \<and> hd s = 0x2D then tl s else s)"
  from a obtain ip s2 fp s3 e where
    i: "lex_int s1 = Some (ip, s2)" and f: "lex_frac s2 = Some (fp, s3)"
    and x: "lex_exp s3 = Some (e, rest)"
    unfolding lex_number_def Let_def s1_def [symmetric]
    by (auto split: option.splits)
  have "length s1 \<le> length s" by (simp add: s1_def)
  with lex_int_shorter [OF i] lex_frac_le [OF f] lex_exp_le [OF x] show ?thesis by simp
qed

lemma next_token_shorter: "next_token s = Some (t, rest) \<Longrightarrow> length rest < length s"
  by (auto simp: next_token_def split: list.splits if_splits option.splits
           dest: lex_string_shorter lex_number_shorter)

function lex :: "jsstring \<Rightarrow> token list option" where
  "lex s =
     (case dropWhile json_ws s of
        [] \<Rightarrow> Some []
      | c # cs \<Rightarrow>
          (case next_token (c # cs) of
             None \<Rightarrow> None
           | Some (t, rest) \<Rightarrow>
               (case lex rest of
                  None \<Rightarrow> None
                | Some ts \<Rightarrow> Some (t # ts))))"
  by pat_completeness auto
termination
proof (relation "measure length")
  show "wf (measure length)" by simp
next
  fix s :: jsstring and c cs x t rest
  assume d: "dropWhile json_ws s = c # cs" and n: "next_token (c # cs) = Some x" and x: "(t, rest) = x"
  have "length rest < length (c # cs)"
    using n x next_token_shorter [of "c # cs" t rest] by simp
  moreover have "length (c # cs) \<le> length s"
    using d length_dropWhile_le [of json_ws s] by simp
  ultimately show "(rest, s) \<in> measure length" by simp
qed

declare lex.simps [simp del]


text \<open>
  A property that is set twice keeps its place and takes the later value.
\<close>

fun set_prop :: "jsstring \<Rightarrow> jsvalue \<Rightarrow> (jsstring \<times> jsvalue) list \<Rightarrow> (jsstring \<times> jsvalue) list" where
  "set_prop k v [] = [(k, v)]"
| "set_prop k v ((k', v') # ps) =
     (if k' = k then (k, v) # ps else (k', v') # set_prop k v ps)"

text \<open>
  The machine. \<open>SValue\<close> expects a value, \<open>SArrStart\<close> and \<open>SObjStart\<close> stand right after an
  opening bracket or brace, \<open>SKey\<close> expects a property name, \<open>SColon\<close> the colon after it,
  and \<open>SAfter v\<close> has just completed the value \<open>v\<close>. The text is accepted when the last
  state is \<open>SAfter v\<close> with nothing left open.
\<close>

datatype frame =
    FArr "jsvalue list"
  | FObj "(jsstring \<times> jsvalue) list" jsstring

datatype pstate =
    SValue "frame list"
  | SArrStart "frame list"
  | SObjStart "frame list"
  | SKey "(jsstring \<times> jsvalue) list" "frame list"
  | SColon "(jsstring \<times> jsvalue) list" jsstring "frame list"
  | SAfter jsvalue "frame list"

fun start_value :: "frame list \<Rightarrow> token \<Rightarrow> pstate option" where
  "start_value st (TString s) = Some (SAfter (JStr s) st)"
| "start_value st (TNumber neg d e) = Some (SAfter (JNum neg d e) st)"
| "start_value st TTrue = Some (SAfter (JBool True) st)"
| "start_value st TFalse = Some (SAfter (JBool False) st)"
| "start_value st TNull = Some (SAfter JNull st)"
| "start_value st TLBrack = Some (SArrStart st)"
| "start_value st TLBrace = Some (SObjStart st)"
| "start_value st _ = None"

definition pstep :: "pstate \<Rightarrow> token \<Rightarrow> pstate option" where
  "pstep p t =
     (case p of
        SValue st \<Rightarrow> start_value st t
      | SArrStart st \<Rightarrow>
          if t = TRBrack then Some (SAfter (JArr []) st) else start_value (FArr [] # st) t
      | SObjStart st \<Rightarrow>
          (case t of
             TRBrace \<Rightarrow> Some (SAfter (JObj []) st)
           | TString k \<Rightarrow> Some (SColon [] k st)
           | _ \<Rightarrow> None)
      | SKey ps st \<Rightarrow>
          (case t of
             TString k \<Rightarrow> Some (SColon ps k st)
           | _ \<Rightarrow> None)
      | SColon ps k st \<Rightarrow>
          if t = TColon then Some (SValue (FObj ps k # st)) else None
      | SAfter v [] \<Rightarrow> None
      | SAfter v (FArr vs # st) \<Rightarrow>
          if t = TComma then Some (SValue (FArr (vs @ [v]) # st))
          else if t = TRBrack then Some (SAfter (JArr (vs @ [v])) st)
          else None
      | SAfter v (FObj ps k # st) \<Rightarrow>
          if t = TComma then Some (SKey (set_prop k v ps) st)
          else if t = TRBrace then Some (SAfter (JObj (set_prop k v ps)) st)
          else None)"

fun psteps :: "pstate \<Rightarrow> token list \<Rightarrow> pstate option" where
  "psteps p [] = Some p"
| "psteps p (t # ts) =
     (case pstep p t of
        None \<Rightarrow> None
      | Some p' \<Rightarrow> psteps p' ts)"

definition JSON_parse :: "jsstring \<Rightarrow> jsvalue option" where
  "JSON_parse text =
     (case lex text of
        None \<Rightarrow> None
      | Some ts \<Rightarrow>
          (case psteps (SValue []) ts of
             Some (SAfter v []) \<Rightarrow> Some v
           | _ \<Rightarrow> None))"

text \<open>
  Truthiness, as \<open>!this.config\<close> tests it. A number is falsy when its value as a double
  is zero: when it has no digit other than zero, or when it is at most two to the power \<open>-1075\<close>, half
  of the smallest positive double, and so rounds to zero.
\<close>

definition rounds_to_zero :: "nat \<Rightarrow> int \<Rightarrow> bool" where
  "rounds_to_zero d e \<longleftrightarrow> d = 0 \<or> (e < 0 \<and> d * 2 ^ 1075 \<le> 10 ^ nat (- e))"

fun truthy :: "jsvalue \<Rightarrow> bool" where
  "truthy JNull = False"
| "truthy (JBool b) = b"
| "truthy (JNum neg d e) = (\<not> rounds_to_zero d e)"
| "truthy (JStr s) = (s \<noteq> [])"
| "truthy (JArr vs) = True"
| "truthy (JObj ps) = True"


section \<open>The program and its surroundings\<close>

text \<open>
  \<open>fs.writeFile\<close> stores a string as UTF-8 and \<open>fs.readFile\<close> with \<open>'utf8'\<close> decodes
  it: a surrogate pair survives, a surrogate that stands alone comes back as U+FFFD.
\<close>

fun utf8_store :: "jsstring \<Rightarrow> jsstring" where
  "utf8_store [] = []"
| "utf8_store (c # cs) =
     (if is_high c \<and> cs \<noteq> [] \<and> is_low (hd cs) then c # hd cs # utf8_store (tl cs)
      else (if is_high c \<or> is_low c then 0xFFFD else c) # utf8_store cs)"

text \<open>
  \<open>{...this.config, model: modelOverride}\<close> copies the own enumerable properties of
  the configuration: those of an object, the indexed elements of an array or of a string,
  none for the other values.
\<close>

fun decimal :: "nat \<Rightarrow> jsstring" where
  "decimal n =
     (if n < 10 then [0x30 + of_nat n] else decimal (n div 10) @ [0x30 + of_nat (n mod 10)])"

declare decimal.simps [simp del]

fun index_props :: "nat \<Rightarrow> jsvalue list \<Rightarrow> (jsstring \<times> jsvalue) list" where
  "index_props i [] = []"
| "index_props i (v # vs) = (decimal i, v) # index_props (Suc i) vs"

fun spread :: "jsvalue \<Rightarrow> (jsstring \<times> jsvalue) list" where
  "spread (JObj ps) = ps"
| "spread (JArr vs) = index_props 0 vs"
| "spread (JStr s) = index_props 0 (map (\<lambda>c. JStr [c]) s)"
| "spread JNull = []"
| "spread (JBool b) = []"
| "spread (JNum neg d e) = []"

text \<open>
  \<open>this.config.model\<close>: reading a property of \<open>null\<close> raises a \<open>TypeError\<close>; a value
  without such a property gives \<open>undefined\<close>, here \<open>None\<close>.
\<close>

fun config_model :: "jsvalue \<Rightarrow> js_error + jsvalue option" where
  "config_model JNull = Inl TypeError"
| "config_model (JObj ps) = Inr (map_of ps (js ''model''))"
| "config_model (JArr vs) = Inr None"
| "config_model (JStr s) = Inr None"
| "config_model (JBool b) = Inr None"
| "config_model (JNum neg d e) = Inr None"

text \<open>
  \<open>parseInt\<close> with one argument: leading white space and a sign are skipped, \<open>0x\<close> or
  \<open>0X\<close> selects radix 16, and the longest run of digits of the radix is read; \<open>None\<close> stands
  for \<open>NaN\<close>. The result is only compared with the number of models, for which the exact
  integer and its double agree.
\<close>

definition digit_of :: "unit16 \<Rightarrow> nat option" where
  "digit_of c =
     (if 0x30 \<le> c \<and> c \<le> 0x39 then Some (unat c - 0x30)
      else if 0x61 \<le> c \<and> c \<le> 0x7A then Some (unat c - 0x57)
      else if 0x41 \<le> c \<and> c \<le> 0x5A then Some (unat c - 0x37)
      else None)"

fun read_digits :: "nat \<Rightarrow> jsstring \<Rightarrow> nat option \<Rightarrow> nat option" where
  "read_digits radix [] acc = acc"
| "read_digits radix (c # cs) acc =
     (case digit_of c of
        None \<Rightarrow> acc
      | Some d \<Rightarrow>
          if d < radix then
            read_digits radix cs (Some ((case acc of None \<Rightarrow> 0 | Some a \<Rightarrow> a) * radix + d))
          else acc)"

definition parseInt :: "jsstring \<Rightarrow> int option" where
  "parseInt input =
     (let s = dropWhile is_ws input;
          neg = (s \<noteq> [] \<and> hd s = 0x2D);
          s1 = (if s \<noteq> [] \<and> (hd s = 0x2D \<or> hd s = 0x2B) then tl s else s);
          hex = (2 \<le> length s1 \<and> s1 ! 0 = 0x30 \<and> (s1 ! 1 = 0x78 \<or> s1 ! 1 = 0x58))
      in case (if hex then read_digits 16 (drop 2 s1) None else read_digits 10 s1 None) of
           None \<Rightarrow> None
         | Some n \<Rightarrow> Some (if neg then - int n else int n))"

text \<open>
  \<open>remainingArgs.join(' ')\<close> and \<open>findIndex\<close>, whose \<open>-1\<close> is \<open>None\<close> here.
\<close>

fun join :: "jsstring list \<Rightarrow> jsstring" where
  "join [] = []"
| "join [a] = a"
| "join (a # b # rest) = a @ [0x20] @ join (b # rest)"

fun findIndex :: "('a \<Rightarrow> bool) \<Rightarrow> 'a list \<Rightarrow> nat option" where
  "findIndex p [] = None"
| "findIndex p (x # xs) =
     (if p x then Some 0
      else (case findIndex p xs of None \<Rightarrow> None | Some i \<Rightarrow> Some (Suc i)))"

text \<open>
  What the surroundings answer. A request to \<open>/api/tags\<close> gets no reply at all, or a
  reply with its \<open>ok\<close> flag and the model names that \<open>data.models || []\<close> yields (none
  when the body cannot be used). A request to \<open>/api/generate\<close> gets no reply, a reply
  whose status is not \<open>ok\<close>, a body that cannot be read, or some \<open>response\<close> field.
  The spawned shell ends with an exit code, by a signal (the code is \<open>null\<close>), or never
  starts.
\<close>

datatype tags_reply = NoReply | Reply bool "jsstring list"

datatype gen_reply = GenNoReply | GenStatus | GenBadBody | GenData response_field

datatype child_end = ChildExit int | ChildSignal | ChildError

text \<open>
  What the program does to its surroundings is recorded as a list of events: lines printed,
  requests sent, questions asked together with the answer, the preference file read or
  written, a command spawned. The wording and colour of a printed line are left out, which
  line it is is kept.
\<close>

datatype question = SelectQuestion | InstructionQuestion | ConfirmQuestion

datatype failure = GenerationFailed | CommandFailed "int option" | SpawnFailed | WriteFailed

datatype message =
    RawArgs "jsstring list" | HelpText | VersionText | Welcome | SetupNotRunning | NoModels
  | ModelList "jsstring list" | InvalidSelection | SetupComplete jsstring
  | NoConfiguration | Separator | GateNotRunning | NoInput | Thinking | FailedToGenerate
  | Suggested jsstring | PressEnter | Running jsstring | Cancelled
  | ErrorLine failure | FatalError failure

datatype event =
    Print message
  | GetTags
  | PostGenerate "jsvalue option" jsstring
  | Asked question "jsstring option"
  | ReadFile
  | WriteFile jsstring
  | Spawn jsstring

text \<open>
  A step of the program ends the process with an exit code, waits for a line of input that
  never comes, throws, or returns a value. The process as a whole finishes with an exit
  code.
\<close>

datatype halt = Exit nat | Unanswered | Throw failure

datatype outcome = Finished nat

text \<open>
  The state of one invocation. \<open>args\<close> is \<open>process.argv.slice(2)\<close>, \<open>debug\<close> tells whether
  \<open>process.env.DEBUG\<close> is set to a non-empty value, \<open>config_file\<close> is the text of
  \<open>~/.langtermrc\<close> (\<open>None\<close> when it cannot be read), \<open>write_error\<close> is \<open>None\<close> when a write
  to that file succeeds and otherwise holds what a failed write leaves behind, \<open>tags n\<close> is
  the reply to the \<open>n\<close>-th request to \<open>/api/tags\<close>, \<open>stdin n\<close> is the \<open>n\<close>-th line the
  operator enters (\<open>None\<close> once the input has ended), \<open>generate\<close> and \<open>child\<close> are the
  replies of the generation endpoint and of the shell, \<open>config\<close> is \<open>this.config\<close>, and
  \<open>trace\<close> collects the events. What a spawned command does to the machine is not part
  of the state.
\<close>

record world =
  args :: "jsstring list"
  debug :: bool
  config_file :: "jsstring option"
  write_error :: "jsstring option option"
  tags :: "nat \<Rightarrow> tags_reply"
  tags_n :: nat
  stdin :: "nat \<Rightarrow> jsstring option"
  stdin_n :: nat
  generate :: "jsvalue option \<Rightarrow> jsstring \<Rightarrow> gen_reply"
  child :: "jsstring \<Rightarrow> child_end"
  config :: jsvalue
  trace :: "event list"

definition emit :: "event \<Rightarrow> world \<Rightarrow> world" where
  "emit e w = w\<lparr>trace := trace w @ [e]\<rparr>"

definition Langterm :: "world \<Rightarrow> world" where
  "Langterm w =
     (let w1 = w\<lparr>config := JNull\<rparr>
      in if debug w then emit (Print (RawArgs (args w))) w1 else w1)"

definition loadConfig :: "world \<Rightarrow> world" where
  "loadConfig w =
     (let w1 = emit ReadFile w
      in case config_file w1 of
           None \<Rightarrow> w1\<lparr>config := JNull\<rparr>
         | Some configData \<Rightarrow>
             (case JSON_parse configData of
                None \<Rightarrow> w1\<lparr>config := JNull\<rparr>
              | Some v \<Rightarrow> w1\<lparr>config := v\<rparr>))"

definition saveConfig :: "preference \<Rightarrow> world \<Rightarrow> (halt + unit) \<times> world" where
  "saveConfig p w =
     (let w1 = emit (WriteFile (stringify p)) w
      in case write_error w of
           Some left \<Rightarrow> (Inl (Throw WriteFailed), w1\<lparr>config_file := left\<rparr>)
         | None \<Rightarrow> (Inr (), w1\<lparr>config_file := Some (utf8_store (stringify p)), config := pref_value p\<rparr>))"

definition next_tags :: "world \<Rightarrow> tags_reply \<times> world" where
  "next_tags w = (tags w (tags_n w), (emit GetTags w)\<lparr>tags_n := Suc (tags_n w)\<rparr>)"

definition checkOllama :: "world \<Rightarrow> bool \<times> world" where
  "checkOllama w =
     (case next_tags w of
        (Reply ok ms, w1) \<Rightarrow> (ok, w1)
      | (NoReply, w1) \<Rightarrow> (False, w1))"

definition getModels :: "world \<Rightarrow> jsstring list \<times> world" where
  "getModels w =
     (case next_tags w of
        (Reply ok ms, w1) \<Rightarrow> (ms, w1)
      | (NoReply, w1) \<Rightarrow> ([], w1))"

definition prompt :: "question \<Rightarrow> world \<Rightarrow> (halt + jsstring) \<times> world" where
  "prompt q w =
     (case stdin w (stdin_n w) of
        None \<Rightarrow> (Inl Unanswered, emit (Asked q None) w)
      | Some answer \<Rightarrow> (Inr answer, (emit (Asked q (Some answer)) w)\<lparr>stdin_n := Suc (stdin_n w)\<rparr>))"

text \<open>
  The loop of \<open>selectModel\<close> asks until the answer is the number of a listed model. It need
  not end, so it is a partial function: \<open>None\<close> is the run that asks forever.
\<close>

definition valid_choice :: "jsstring list \<Rightarrow> jsstring \<Rightarrow> bool" where
  "valid_choice models choice =
     (case parseInt choice of
        None \<Rightarrow> False
      | Some n \<Rightarrow> 0 \<le> n - 1 \<and> n - 1 < int (length models))"

definition chosen :: "jsstring list \<Rightarrow> jsstring \<Rightarrow> jsstring" where
  "chosen models choice = (case parseInt choice of None \<Rightarrow> [] | Some n \<Rightarrow> models ! nat (n - 1))"

partial_function (option) select_loop :: "jsstring list \<Rightarrow> world \<Rightarrow> ((halt + jsstring) \<times> world) option" where
  "select_loop models w =
     (case prompt SelectQuestion w of
        (Inl h, w1) \<Rightarrow> Some (Inl h, w1)
      | (Inr choice, w1) \<Rightarrow>
          if valid_choice models choice then Some (Inr (chosen models choice), w1)
          else select_loop models (emit (Print InvalidSelection) w1))"


declare select_loop.simps [code]

definition selectModel :: "jsstring list \<Rightarrow> world \<Rightarrow> ((halt + jsstring) \<times> world) option" where
  "selectModel models w = select_loop models (emit (Print (ModelList models)) w)"

text \<open>
  \<open>setup_flow\<close> is the method \<open>setup\<close> of the source, whose name is taken here.
\<close>

definition setup_flow :: "world \<Rightarrow> ((halt + unit) \<times> world) option" where
  "setup_flow w =
     (case checkOllama (emit (Print Welcome) w) of
        (False, w1) \<Rightarrow> Some (Inl (Exit 1), emit (Print SetupNotRunning) w1)
      | (True, w1) \<Rightarrow>
          (case getModels w1 of
             (models, w2) \<Rightarrow>
               if length models = 0 then Some (Inl (Exit 1), emit (Print NoModels) w2)
               else
                 (case selectModel models w2 of
                    None \<Rightarrow> None
                  | Some (Inl h, w3) \<Rightarrow> Some (Inl h, w3)
                  | Some (Inr selectedModel, w3) \<Rightarrow>
                      (case saveConfig (Preference selectedModel) w3 of
                         (Inl h, w4) \<Rightarrow> Some (Inl h, w4)
                       | (Inr u, w4) \<Rightarrow>
                           Some (Inr (), emit (Print (SetupComplete selectedModel)) w4)))))"

text \<open>
  \<open>run\<close>, lines 205 to 250: the first argument that is a help, version or setup flag
  decides; otherwise the preference is loaded, a model override is taken out of the
  arguments, and setup runs when there is neither a truthy configuration nor an override.
\<close>

datatype flag = HelpFlag | VersionFlag | SetupFlag

fun scan_flags :: "jsstring list \<Rightarrow> flag option" where
  "scan_flags [] = None"
| "scan_flags (arg # rest) =
     (if arg = js ''--help'' \<or> arg = js ''-h'' then Some HelpFlag
      else if arg = js ''--version'' \<or> arg = js ''-v'' then Some VersionFlag
      else if arg = js ''--setup'' \<or> arg = js ''-s'' then Some SetupFlag
      else scan_flags rest)"

definition model_override :: "jsstring list \<Rightarrow> jsstring option \<times> jsstring list" where
  "model_override remainingArgs =
     (case findIndex (\<lambda>arg. arg = js ''--model'' \<or> arg = js ''-m'') remainingArgs of
        None \<Rightarrow> (None, remainingArgs)
      | Some modelIndex \<Rightarrow>
          if Suc modelIndex < length remainingArgs \<and> remainingArgs ! Suc modelIndex \<noteq> [] then
            (Some (remainingArgs ! Suc modelIndex),
             take modelIndex remainingArgs @ drop (modelIndex + 2) remainingArgs)
          else (None, remainingArgs))"

definition first_time_setup :: "jsstring option \<Rightarrow> world \<Rightarrow> ((halt + unit) \<times> world) option" where
  "first_time_setup modelOverride w =
     (if \<not> truthy (config w) \<and> modelOverride = None then
        (case setup_flow (emit (Print NoConfiguration) w) of
           None \<Rightarrow> None
         | Some (Inl h, w1) \<Rightarrow> Some (Inl h, w1)
         | Some (Inr u, w1) \<Rightarrow> Some (Inr (), emit (Print Separator) w1))
      else Some (Inr (), w))"

definition use_override :: "jsstring option \<Rightarrow> world \<Rightarrow> world" where
  "use_override modelOverride w =
     (case modelOverride of
        None \<Rightarrow> w
      | Some m \<Rightarrow> w\<lparr>config := JObj (set_prop (js ''model'') (JStr m) (spread (config w)))\<rparr>)"

definition resolve_model :: "world \<Rightarrow> ((halt + jsstring list) \<times> world) option" where
  "resolve_model w0 =
     (let w = loadConfig w0
      in case model_override (args w) of
           (modelOverride, remainingArgs) \<Rightarrow>
             (case first_time_setup modelOverride w of
                None \<Rightarrow> None
              | Some (Inl h, w1) \<Rightarrow> Some (Inl h, w1)
              | Some (Inr u, w1) \<Rightarrow> Some (Inr remainingArgs, use_override modelOverride w1)))"

text \<open>
  \<open>generateCommand\<close>: the request is identified by the model and the instruction it
  carries (the prompt text is a fixed template around the instruction). Whatever goes wrong
  inside its \<open>try\<close> is thrown again as one error.
\<close>

definition generateCommand :: "jsstring \<Rightarrow> world \<Rightarrow> (halt + jsstring) \<times> world" where
  "generateCommand userInput w =
     (case config_model (config w) of
        Inl e \<Rightarrow> (Inl (Throw GenerationFailed), w)
      | Inr m \<Rightarrow>
          (let w1 = emit (PostGenerate m userInput) w
           in case generate w m userInput of
                GenData field \<Rightarrow>
                  (case cleanup field of
                     Inl e \<Rightarrow> (Inl (Throw GenerationFailed), w1)
                   | Inr command \<Rightarrow> (Inr command, w1))
              | GenNoReply \<Rightarrow> (Inl (Throw GenerationFailed), w1)
              | GenStatus \<Rightarrow> (Inl (Throw GenerationFailed), w1)
              | GenBadBody \<Rightarrow> (Inl (Throw GenerationFailed), w1)))"

definition executeCommand :: "jsstring \<Rightarrow> world \<Rightarrow> (halt + unit) \<times> world" where
  "executeCommand command w =
     (let w1 = emit (Spawn command) w
      in case child w command of
           ChildExit code \<Rightarrow>
             if code = 0 then (Inr (), w1) else (Inl (Throw (CommandFailed (Some code))), w1)
         | ChildSignal \<Rightarrow> (Inl (Throw (CommandFailed None)), w1)
         | ChildError \<Rightarrow> (Inl (Throw SpawnFailed), w1))"

text \<open>
  \<open>run\<close>, lines 252 to 297: the availability gate, the instruction, and the
  \<open>try\<close>/\<open>catch\<close> around generation, confirmation and execution.
  \<open>process.exit\<close> inside the \<open>try\<close> ends the process and is not caught.
\<close>

definition confirm_and_execute :: "jsstring \<Rightarrow> world \<Rightarrow> (halt + unit) \<times> world" where
  "confirm_and_execute command w =
     (case prompt ConfirmQuestion w of
        (Inl h, w1) \<Rightarrow> (Inl h, w1)
      | (Inr confirm, w1) \<Rightarrow>
          if confirm = [] then executeCommand command (emit (Print (Running command)) w1)
          else (Inr (), emit (Print Cancelled) w1))"

definition try_block :: "jsstring \<Rightarrow> world \<Rightarrow> (halt + unit) \<times> world" where
  "try_block userInput w =
     (case generateCommand userInput w of
        (Inl h, w1) \<Rightarrow> (Inl h, w1)
      | (Inr command, w1) \<Rightarrow>
          if command = [] \<or> command = js ''null'' then
            (Inl (Exit 1), emit (Print FailedToGenerate) w1)
          else
            confirm_and_execute command
              (emit (Print PressEnter) (emit (Print (Suggested command)) w1)))"

definition catch_block :: "(halt + unit) \<times> world \<Rightarrow> (halt + unit) \<times> world" where
  "catch_block r =
     (case r of
        (Inl (Throw error), w) \<Rightarrow> (Inl (Exit 1), emit (Print (ErrorLine error)) w)
      | (Inl (Exit n), w) \<Rightarrow> (Inl (Exit n), w)
      | (Inl Unanswered, w) \<Rightarrow> (Inl Unanswered, w)
      | (Inr u, w) \<Rightarrow> (Inr u, w))"

definition read_instruction :: "jsstring list \<Rightarrow> world \<Rightarrow> (halt + jsstring) \<times> world" where
  "read_instruction remainingArgs w =
     (if 0 < length remainingArgs then (Inr (join remainingArgs), w)
      else prompt InstructionQuestion w)"

definition from_gate :: "jsstring list \<Rightarrow> world \<Rightarrow> (halt + unit) \<times> world" where
  "from_gate remainingArgs w =
     (case checkOllama w of
        (False, w1) \<Rightarrow> (Inl (Exit 1), emit (Print GateNotRunning) w1)
      | (True, w1) \<Rightarrow>
          (case read_instruction remainingArgs w1 of
             (Inl h, w2) \<Rightarrow> (Inl h, w2)
           | (Inr userInput, w2) \<Rightarrow>
               if trim userInput = [] then (Inl (Exit 1), emit (Print NoInput) w2)
               else catch_block (try_block userInput (emit (Print Thinking) w2))))"

definition run :: "world \<Rightarrow> ((halt + unit) \<times> world) option" where
  "run w =
     (case scan_flags (args w) of
        Some HelpFlag \<Rightarrow> Some (Inr (), emit (Print HelpText) w)
      | Some VersionFlag \<Rightarrow> Some (Inr (), emit (Print VersionText) w)
      | Some SetupFlag \<Rightarrow> setup_flow w
      | None \<Rightarrow>
          (case resolve_model w of
             None \<Rightarrow> None
           | Some (Inl h, w1) \<Rightarrow> Some (Inl h, w1)
           | Some (Inr remainingArgs, w1) \<Rightarrow> Some (from_gate remainingArgs w1)))"

text \<open>
  The last lines of the file: an error that leaves \<open>run\<close> is printed and the process
  exits with code 1; when \<open>run\<close> returns, the process ends with code 0. When the input
  ends before a question is answered, \<open>rl.question\<close> never calls back, nothing is left to
  wait for, and the process ends with code 0 as well.
\<close>

definition main :: "world \<Rightarrow> (outcome \<times> world) option" where
  "main w =
     (case run (Langterm w) of
        None \<Rightarrow> None
      | Some (Inr u, w1) \<Rightarrow> Some (Finished 0, w1)
      | Some (Inl (Exit n), w1) \<Rightarrow> Some (Finished n, w1)
      | Some (Inl Unanswered, w1) \<Rightarrow> Some (Finished 0, w1)
      | Some (Inl (Throw error), w1) \<Rightarrow> Some (Finished 1, emit (Print (FatalError error)) w1))"

text \<open>
  Four kinds of events that the statements below single out: a request to the generation
  endpoint, the spawning of a command, a write to the preference file, and the line that
  shows the suggested command.
\<close>

definition is_generate :: "event \<Rightarrow> bool" where
  "is_generate e = (case e of PostGenerate m i \<Rightarrow> True | _ \<Rightarrow> False)"

definition is_spawn :: "event \<Rightarrow> bool" where
  "is_spawn e = (case e of Spawn c \<Rightarrow> True | _ \<Rightarrow> False)"

definition is_write :: "event \<Rightarrow> bool" where
  "is_write e = (case e of WriteFile c \<Rightarrow> True | _ \<Rightarrow> False)"

fun is_suggestion :: "event \<Rightarrow> bool" where
  "is_suggestion (Print (Suggested c)) = True"
| "is_suggestion e = False"


section \<open>Notions used in the statements\<close>

text \<open>
  The events are sorted by the part of \<open>run\<close> that can produce them. \<open>setup_event\<close>
  holds of what only the setup sub-flow does: its lines, the question for a model number
  and the writing of the preference file. \<open>resolve_event\<close> holds of what may happen
  between the flags and the availability gate, \<open>gate_event\<close> of what may happen from the
  gate on.
\<close>

fun setup_message :: "message \<Rightarrow> bool" where
  "setup_message Welcome = True"
| "setup_message SetupNotRunning = True"
| "setup_message NoModels = True"
| "setup_message (ModelList ms) = True"
| "setup_message InvalidSelection = True"
| "setup_message (SetupComplete m) = True"
| "setup_message NoConfiguration = True"
| "setup_message Separator = True"
| "setup_message _ = False"


fun resolve_event :: "event \<Rightarrow> bool" where
  "resolve_event (Print m) = setup_message m"
| "resolve_event (Asked q a) = (q = SelectQuestion)"
| "resolve_event (WriteFile c) = True"
| "resolve_event ReadFile = True"
| "resolve_event GetTags = True"
| "resolve_event _ = False"



text \<open>
  \<open>steps P w w'\<close>: the state \<open>w'\<close> comes after \<open>w\<close> in one run. The surroundings are the
  same, the trace of \<open>w'\<close> is the trace of \<open>w\<close> followed by events that all satisfy \<open>P\<close>,
  and the preference file has the same text unless one of these events is a write.
\<close>

definition steps :: "(event \<Rightarrow> bool) \<Rightarrow> world \<Rightarrow> world \<Rightarrow> bool" where
  "steps P w w' \<longleftrightarrow>
     args w' = args w \<and> debug w' = debug w \<and> write_error w' = write_error w
     \<and> tags w' = tags w \<and> stdin w' = stdin w \<and> generate w' = generate w \<and> child w' = child w
     \<and> (\<exists>es. trace w' = trace w @ es \<and> list_all P es
            \<and> (filter is_write es = [] \<longrightarrow> config_file w' = config_file w))"

text \<open>
  \<open>early\<close> holds of the events that can come before the \<open>try\<close> block of \<open>run\<close>,
  \<open>goes_on\<close> of the events by which the run goes on with a generated command: the
  suggestion, the confirmation question, the execution or the cancellation. \<open>checked w r es\<close>
  states the check on the extracted command for a stretch \<open>es\<close> of the trace that ends with
  result \<open>r\<close>: a suggested command is neither empty nor the string \<open>null\<close>, and a reply
  whose extraction is empty or \<open>null\<close> ends in the failure line and exit code 1 without
  any event of going on.
\<close>

fun early_message :: "message \<Rightarrow> bool" where
  "early_message FailedToGenerate = False"
| "early_message (Suggested c) = False"
| "early_message PressEnter = False"
| "early_message (Running c) = False"
| "early_message Cancelled = False"
| "early_message (ErrorLine e) = False"
| "early_message (FatalError e) = False"
| "early_message m = True"

fun early :: "event \<Rightarrow> bool" where
  "early (Print m) = early_message m"
| "early (Asked q a) = (q \<noteq> ConfirmQuestion)"
| "early (PostGenerate m i) = False"
| "early (Spawn c) = False"
| "early e = True"

fun goes_on :: "event \<Rightarrow> bool" where
  "goes_on (Print (Suggested c)) = True"
| "goes_on (Print PressEnter) = True"
| "goes_on (Print (Running c)) = True"
| "goes_on (Print Cancelled) = True"
| "goes_on (Asked q a) = (q = ConfirmQuestion)"
| "goes_on (Spawn c) = True"
| "goes_on e = False"

definition checked :: "world \<Rightarrow> halt + unit \<Rightarrow> event list \<Rightarrow> bool" where
  "checked w r es \<longleftrightarrow>
     (\<forall>c. Print (Suggested c) \<in> set es \<longrightarrow> c \<noteq> [] \<and> c \<noteq> js ''null'')
     \<and> (\<forall>m i raw. PostGenerate m i \<in> set es \<and> generate w m i = GenData (RString raw)
            \<and> (extract_command raw = [] \<or> extract_command raw = js ''null'') \<longrightarrow>
          r = Inl (Exit 1) \<and> Print FailedToGenerate \<in> set es \<and> filter goes_on es = [])"

text \<open>
  \<open>gesture w r es\<close> states the confirmation gesture for a stretch \<open>es\<close> of the trace that
  ends with result \<open>r\<close>. If the confirmation question was answered in it, then exactly one
  request went to the generation endpoint, its reply was a string, exactly one command was
  suggested, namely the extraction of that reply, and: with an empty answer that same
  command was spawned and nothing else; with any other answer the cancellation notice was
  printed, the stretch ended in a normal return and nothing was spawned.
\<close>

definition gesture :: "world \<Rightarrow> halt + unit \<Rightarrow> event list \<Rightarrow> bool" where
  "gesture w r es \<longleftrightarrow>
     (\<forall>answer. Asked ConfirmQuestion (Some answer) \<in> set es \<longrightarrow>
        (\<exists>m i raw. filter is_generate es = [PostGenerate m i]
           \<and> generate w m i = GenData (RString raw)
           \<and> filter is_suggestion es = [Print (Suggested (extract_command raw))]
           \<and> (if answer = [] then filter is_spawn es = [Spawn (extract_command raw)]
                else r = Inr () \<and> filter is_spawn es = [] \<and> Print Cancelled \<in> set es)))"

text \<open>
  \<open>echoed e w\<close> is the state \<open>w\<close> of a run with the debug flag set whose trace starts with
  the event \<open>e\<close>.
\<close>

definition echoed :: "event \<Rightarrow> world \<Rightarrow> world" where
  "echoed e w = w\<lparr>debug := True, trace := e # trace w\<rparr>"

text \<open>
  A text is plain when it holds no surrogate code unit.
\<close>

definition plain :: "jsstring \<Rightarrow> bool" where
  "plain s \<longleftrightarrow> list_all (\<lambda>c. \<not> is_high c \<and> \<not> is_low c) s"

text \<open>
  Invocations used as concrete inputs: \<open>langterm -m mistral:7b list files\<close> without a
  preference file, the service up, the model answering with a command in backticks and the
  operator pressing Enter; \<open>langterm -m mistral:7b what does ls -s do\<close> with another model
  installed and an operator who enters \<open>1\<close>; and the first one with a model that answers
  with a fenced block.
\<close>

definition example_world :: world where
  "example_world =
     \<lparr>args = [js ''-m'', js ''mistral:7b'', js ''list'', js ''files''], debug = False,
      config_file = None, write_error = None, tags = (\<lambda>n. Reply True [js ''mistral:7b'']),
      tags_n = 0, stdin = (\<lambda>n. if n = 0 then Some [] else None), stdin_n = 0,
      generate = (\<lambda>m i. GenData (RString (js ''`ls -la`''))), child = (\<lambda>c. ChildExit 0),
      config = JNull, trace = []\<rparr>"


definition fenced_world :: world where
  "fenced_world =
     example_world\<lparr>generate := \<lambda>m i. GenData (RString (js ''```bash\<newline>ls -la\<newline>```''))\<rparr>"

section \<open>Properties of the command extractor\<close>

lemma star_then_tick_closed:
  "backtick \<notin> set mid \<Longrightarrow> star_then_tick acc (mid @ backtick # post) = Some (acc @ mid)"
  by (induction mid arbitrary: acc) auto

lemma star_then_tick_open:
  "backtick \<notin> set s \<Longrightarrow> star_then_tick acc s = None"
  by (induction s arbitrary: acc) auto

lemma match_first_skip:
  "backtick \<notin> set pre \<Longrightarrow> match_first (pre @ backtick # rest) = match_first (backtick # rest)"
  by (induction pre) auto

lemma match_first_no_tick: "backtick \<notin> set s \<Longrightarrow> match_first s = None"
  by (induction s) auto

lemma match_first_span:
  assumes "backtick \<notin> set pre" and "backtick \<notin> set mid"
  shows "match_first (pre @ backtick # mid @ backtick # post) = Some mid"
  using assms by (simp add: match_first_skip star_then_tick_closed)

lemma match_first_unterminated:
  assumes "backtick \<notin> set pre" and "backtick \<notin> set post"
  shows "match_first (pre @ backtick # post) = None"
  using assms by (simp add: match_first_skip star_then_tick_open match_first_no_tick)

lemma remove_fences_no_tick: "backtick \<notin> set s \<Longrightarrow> remove_fences s = s"
  by (induction s rule: remove_fences.induct) auto

lemma single_tick_split:
  "count_list s x = 1 \<Longrightarrow> \<exists>pre post. s = pre @ x # post \<and> x \<notin> set pre \<and> x \<notin> set post"
proof (induction s)
  case Nil
  then show ?case by simp
next
  case (Cons a s)
  show ?case
  proof (cases "a = x")
    case True
    with Cons.prems have "count_list s x = 0" by simp
    then have "x \<notin> set s" by (simp add: count_list_0_iff)
    with True show ?thesis by (intro exI [of _ "[]"] exI [of _ s]) simp
  next
    case False
    with Cons obtain pre post where "s = pre @ x # post" "x \<notin> set pre" "x \<notin> set post"
      by auto
    with False show ?thesis by (intro exI [of _ "a # pre"] exI [of _ post]) simp
  qed
qed

text \<open>
  C1, as amended: when the response holds exactly one backtick-delimited span and the
  interior of the span is not empty, the extractor returns that interior as it is; the text
  around the span is dropped and nothing is trimmed from the interior.
\<close>

theorem single_span_interior:
  assumes "backtick \<notin> set pre" and "backtick \<notin> set mid" and "backtick \<notin> set post"
    and "mid \<noteq> []"
  shows "extract_command (pre @ backtick # mid @ backtick # post) = mid"
  using assms by (simp add: extract_command_def includes_backtick_def match_first_span)

theorem single_span_interior_witness:
  "extract_command (js ''Run `ls -la` now'') = js ''ls -la''"
  using single_span_interior [of "js ''Run ''" "js ''ls -la''" "js '' now''"]
  by (simp add: js_def backtick_def)

text \<open>
  C1 as first stated, with a result free of white space at its ends, fails on a span whose
  interior starts or ends with white space; and a span with an empty interior does not give
  the empty string.
\<close>

theorem single_span_keeps_whitespace:
  "edge_ws (extract_command (js ''` ls `'')) \<and> extract_command (js ''``'') \<noteq> []"
  by (simp add: extract_command_def includes_backtick_def js_def backtick_def edge_ws_def is_ws_def)

text \<open>
  C4: on a response made of an opening and a closing fence with a line feed between
  them the extractor returns the response as it is, not the empty string.
\<close>

theorem fences_only_returned:
  "extract_command (js ''```\<newline>```'') = js ''```\<newline>```''"
  by (simp add: extract_command_def includes_backtick_def js_def backtick_def)

text \<open>
  C5, as amended: the clean-up of a string never fails; the empty string gives the empty
  string; a text without any backtick gives the trimmed text; a text with a single backtick,
  which opens a span that is never closed, is returned as it is, untrimmed.
\<close>

theorem extract_total:
  "(\<exists>command. cleanup (RString raw) = Inr command)
   \<and> extract_command [] = []
   \<and> (backtick \<notin> set raw \<longrightarrow> extract_command raw = trim raw)
   \<and> (count_list raw backtick = 1 \<longrightarrow> extract_command raw = raw)"
proof -
  have one: "extract_command raw = raw" if "count_list raw backtick = 1"
  proof -
    from single_tick_split [OF that] obtain pre post
      where "raw = pre @ backtick # post" "backtick \<notin> set pre" "backtick \<notin> set post"
      by blast
    then show ?thesis
      by (simp add: extract_command_def includes_backtick_def match_first_unterminated)
  qed
  have none: "extract_command raw = trim raw" if "backtick \<notin> set raw"
    using that by (simp add: extract_command_def includes_backtick_def remove_fences_no_tick)
  have "extract_command [] = []"
    by (simp add: extract_command_def includes_backtick_def trim_def)
  with one none show ?thesis by simp
qed

theorem extract_total_witness:
  "extract_command (js ''  ls -la '') = js ''ls -la'' \<and> extract_command (js '' `ls'') = js '' `ls''"
proof -
  have a: "backtick \<notin> set (js ''  ls -la '')" by (simp add: js_def backtick_def)
  have b: "count_list (js '' `ls'') backtick = 1" by (simp add: js_def backtick_def)
  have t: "trim (js ''  ls -la '') = js ''ls -la''" by (simp add: trim_def js_def is_ws_def)
  from extract_total [of "js ''  ls -la ''"] a t have "extract_command (js ''  ls -la '') = js ''ls -la''"
    by simp
  moreover from extract_total [of "js '' `ls''"] b have "extract_command (js '' `ls'') = js '' `ls''"
    by simp
  ultimately show ?thesis by simp
qed

text \<open>
  C5 as first stated, with the trimmed text as the worst case, fails on a text with white
  space at its ends and a backtick that is never closed.
\<close>

theorem unterminated_span_untrimmed:
  "extract_command (js '' `ls '') \<noteq> trim (js '' `ls '')"
  by (simp add: extract_command_def includes_backtick_def js_def backtick_def trim_def is_ws_def)

text \<open>
  C10: when the first two backticks of the response are adjacent, the extractor returns the
  whole response, unchanged and untrimmed.
\<close>

theorem empty_span_returns_raw:
  assumes "backtick \<notin> set pre"
  shows "extract_command (pre @ backtick # backtick # post) = pre @ backtick # backtick # post"
  using assms by (simp add: extract_command_def includes_backtick_def match_first_skip)

theorem empty_span_returns_raw_witness:
  "extract_command (js '' ```bash\<newline>ls\<newline>``` '') = js '' ```bash\<newline>ls\<newline>``` ''"
  using empty_span_returns_raw [of "js '' ''" "js ''`bash\<newline>ls\<newline>``` ''"]
  by (simp add: js_def backtick_def)

section \<open>Saving and loading the preference\<close>

lemma hex_val_hex_char: "k < 16 \<Longrightarrow> hex_val (hex_char k) = Some k"
proof -
  assume "k < 16"
  then have "k = 0 \<or> k = 1 \<or> k = 2 \<or> k = 3 \<or> k = 4 \<or> k = 5 \<or> k = 6 \<or> k = 7 \<or> k = 8
      \<or> k = 9 \<or> k = 10 \<or> k = 11 \<or> k = 12 \<or> k = 13 \<or> k = 14 \<or> k = 15" by arith
  then show ?thesis
    by (elim disjE) (simp_all add: hex_val_def hex_char_def)
qed

lemma nibbles:
  "((n div 4096 * 16 + n div 256 mod 16) * 16 + n div 16 mod 16) * 16 + n mod 16 = (n::nat)"
proof -
  have a: "n div 256 = n div 16 div 16" and b: "n div 4096 = n div 256 div 16"
    by (simp_all add: div_mult2_eq [symmetric])
  have "n div 4096 * 16 + n div 256 mod 16 = n div 256"
    unfolding b by (rule div_mult_mod_eq)
  moreover have "n div 256 * 16 + n div 16 mod 16 = n div 16"
    unfolding a by (rule div_mult_mod_eq)
  moreover have "n div 16 * 16 + n mod 16 = n"
    by (rule div_mult_mod_eq)
  ultimately show ?thesis by simp
qed


lemma hex4_unicode_escape:
  assumes "unicode_escape c = [0x5C, 0x75, h1, h2, h3, h4]"
  shows "hex4 h1 h2 h3 h4 = Some c"
proof -
  let ?n = "unat c"
  have "?n < 65536" using unsigned_less [of c] by simp
  then have b: "?n div 4096 < 16" "?n div 256 mod 16 < 16" "?n div 16 mod 16 < 16" "?n mod 16 < 16"
    by auto
  from assms have h: "h1 = hex_char (?n div 4096)" "h2 = hex_char (?n div 256 mod 16)"
    "h3 = hex_char (?n div 16 mod 16)" "h4 = hex_char (?n mod 16)"
    by (simp_all add: unicode_escape_def Let_def)
  have v: "hex_val h1 = Some (?n div 4096)" "hex_val h2 = Some (?n div 256 mod 16)"
    "hex_val h3 = Some (?n div 16 mod 16)" "hex_val h4 = Some (?n mod 16)"
    unfolding h by (rule hex_val_hex_char, rule b)+
  have "hex4 h1 h2 h3 h4 = Some (of_nat ?n)"
    unfolding hex4_def v by (simp only: prod.case option.case nibbles)
  then show ?thesis by simp
qed

lemma lex_string_unicode_escape:
  "lex_string acc (unicode_escape c @ rest) = lex_string (acc @ [c]) rest"
proof -
  obtain h1 h2 h3 h4 where u: "unicode_escape c = [0x5C, 0x75, h1, h2, h3, h4]"
    by (simp add: unicode_escape_def Let_def)
  from hex4_unicode_escape [OF u] show ?thesis
    unfolding u by simp
qed

lemma surrogate_codes:
  "is_high c \<or> is_low c \<Longrightarrow> c \<noteq> 0x22 \<and> c \<noteq> 0x5C \<and> \<not> c < 0x20"
  by (auto simp: is_high_def is_low_def word_le_nat_alt word_less_nat_alt)

lemma lex_string_quote_unit:
  "lex_string acc (quote_unit c @ rest) = lex_string (acc @ [c]) rest"
  by (simp add: quote_unit_def lex_string_unicode_escape simple_escape_def)

lemma lex_string_quote_body:
  "lex_string acc (quote_body s @ 0x22 # rest) = Some (acc @ s, rest)"
proof (induction s arbitrary: acc rule: quote_body.induct)
  case 1
  show ?case by simp
next
  case (2 c cs)
  show ?case
  proof (cases "is_high c \<and> cs \<noteq> [] \<and> is_low (hd cs)")
    case True
    then obtain d ds where cs: "cs = d # ds" by (cases cs) auto
    with True have c: "c \<noteq> 0x22" "c \<noteq> 0x5C" "\<not> c < 0x20" and d: "d \<noteq> 0x22" "d \<noteq> 0x5C" "\<not> d < 0x20"
      using surrogate_codes [of c] surrogate_codes [of d] by auto
    from True cs "2.IH"(1) [of "acc @ [c, d]"] c d show ?thesis by simp
  next
    case False
    then have q: "quote_body (c # cs) = quote_unit c @ quote_body cs" by auto
    from False "2.IH"(2) [of "acc @ [c]"] show ?thesis
      unfolding q by (simp add: lex_string_quote_unit del: lex_string.simps)
  qed
qed


lemma utf8_store_plain: "plain xs \<Longrightarrow> utf8_store (xs @ ys) = xs @ utf8_store ys"
  by (induction xs) (auto simp: plain_def)

lemma hex_char_plain: "k < 16 \<Longrightarrow> \<not> is_high (hex_char k) \<and> \<not> is_low (hex_char k)"
proof -
  assume "k < 16"
  then have "k = 0 \<or> k = 1 \<or> k = 2 \<or> k = 3 \<or> k = 4 \<or> k = 5 \<or> k = 6 \<or> k = 7 \<or> k = 8
      \<or> k = 9 \<or> k = 10 \<or> k = 11 \<or> k = 12 \<or> k = 13 \<or> k = 14 \<or> k = 15" by arith
  then show ?thesis
    by (elim disjE) (simp_all add: hex_char_def is_high_def is_low_def)
qed

lemma unicode_escape_plain: "plain (unicode_escape c)"
proof -
  have "unat c < 65536" using unsigned_less [of c] by simp
  then have "unat c div 4096 < 16" by auto
  note digits = hex_char_plain [OF this] hex_char_plain [of "unat c div 256 mod 16"]
    hex_char_plain [of "unat c div 16 mod 16"] hex_char_plain [of "unat c mod 16"]
  have ascii: "\<not> is_high 0x5C" "\<not> is_low 0x5C" "\<not> is_high 0x75" "\<not> is_low 0x75"
    by (simp_all add: is_high_def is_low_def)
  show ?thesis
    by (simp add: plain_def unicode_escape_def Let_def digits ascii)
qed

lemma quote_unit_plain: "plain (quote_unit c)"
  using unicode_escape_plain [of c]
  by (auto simp: quote_unit_def plain_def is_high_def is_low_def)

lemma utf8_store_quote_body: "utf8_store (quote_body s @ rest) = quote_body s @ utf8_store rest"
proof (induction s rule: quote_body.induct)
  case 1
  show ?case by simp
next
  case (2 c cs)
  show ?case
  proof (cases "is_high c \<and> cs \<noteq> [] \<and> is_low (hd cs)")
    case True
    with "2.IH"(1) show ?thesis by simp
  next
    case False
    then have q: "quote_body (c # cs) = quote_unit c @ quote_body cs" by auto
    from False "2.IH"(2) show ?thesis
      unfolding q by (simp add: utf8_store_plain quote_unit_plain)
  qed
qed

lemma utf8_store_stringify: "utf8_store (stringify p) = stringify p"
proof -
  have a: "utf8_store (x # xs) = x # utf8_store xs" if "\<not> is_high x" "\<not> is_low x" for x xs
    using that by simp
  have b: "\<not> is_high c \<and> \<not> is_low c" if "c < 0x80" for c :: unit16
    using that by (auto simp: is_high_def is_low_def word_le_nat_alt word_less_nat_alt)
  show ?thesis
    unfolding stringify_def QuoteJSONString_def
    by (simp add: a b utf8_store_quote_body del: utf8_store.simps(2))
qed

lemma lex_nil: "lex [] = Some []"
  by (subst lex.simps) simp

lemma lex_ws: "json_ws c \<Longrightarrow> lex (c # cs) = lex cs"
  by (subst lex.simps, subst (2) lex.simps) simp

lemma lex_token:
  assumes "\<not> json_ws c" and "next_token (c # cs) = Some (t, rest)"
  shows "lex (c # cs) = (case lex rest of None \<Rightarrow> None | Some ts \<Rightarrow> Some (t # ts))"
  using assms by (subst lex.simps) simp

lemma lex_stringify:
  "lex (stringify p) = Some [TLBrace, TString (js ''model''), TColon, TString (model p), TRBrace]"
proof -
  let ?rest = "0x22 # quote_body (model p) @ 0x22 # [0x0A, 0x7D]"
  have close: "lex [0x0A, 0x7D] = Some [TRBrace]"
    by (simp add: lex_ws lex_token [where t = TRBrace and rest = "[]"] lex_nil json_ws_def
        next_token_def)
  have val: "lex ?rest = Some [TString (model p), TRBrace]"
    by (subst lex_token [where t = "TString (model p)" and rest = "[0x0A, 0x7D]"])
       (simp_all add: json_ws_def next_token_def lex_string_quote_body close)
  have colon: "lex (0x3A # 0x20 # ?rest) = Some [TColon, TString (model p), TRBrace]"
    by (subst lex_token [where t = TColon and rest = "0x20 # ?rest"])
       (simp_all add: json_ws_def next_token_def lex_ws val)
  have key: "lex (0x22 # quote_body (js ''model'') @ 0x22 # 0x3A # 0x20 # ?rest)
             = Some [TString (js ''model''), TColon, TString (model p), TRBrace]"
    by (subst lex_token [where t = "TString (js ''model'')" and rest = "0x3A # 0x20 # ?rest"])
       (simp_all add: json_ws_def next_token_def lex_string_quote_body colon
          del: quote_body.simps)
  have "lex (0x7B # 0x0A # 0x20 # 0x20 # 0x22 # quote_body (js ''model'') @ 0x22 # 0x3A # 0x20 # ?rest)
        = Some [TLBrace, TString (js ''model''), TColon, TString (model p), TRBrace]"
    by (subst lex_token [where t = TLBrace
          and rest = "0x0A # 0x20 # 0x20 # 0x22 # quote_body (js ''model'') @ 0x22 # 0x3A # 0x20 # ?rest"])
       (simp_all add: json_ws_def next_token_def lex_ws key del: quote_body.simps)
  then show ?thesis
    by (simp add: stringify_def QuoteJSONString_def del: quote_body.simps)
qed

lemma parse_stringify: "JSON_parse (utf8_store (stringify p)) = Some (pref_value p)"
  by (simp add: utf8_store_stringify JSON_parse_def lex_stringify pstep_def pref_value_def)

text \<open>
  C8: when the write succeeds, \<open>saveConfig\<close> leaves the preference file such that
  \<open>loadConfig\<close>, run in any state that has this file, whatever \<open>this.config\<close> holds there
  (it is \<open>null\<close> at the start of the next invocation), puts into \<open>this.config\<close> the
  preference that was saved.
\<close>

theorem save_then_load:
  assumes "write_error w = None"
  shows "\<exists>w1. saveConfig p w = (Inr (), w1)
           \<and> (\<forall>v. config_file v = config_file w1 \<longrightarrow> config (loadConfig v) = pref_value p)"
  using assms
  by (simp add: saveConfig_def loadConfig_def emit_def Let_def parse_stringify)

theorem save_then_load_witness:
  "write_error example_world = None
   \<and> (\<exists>w1. saveConfig (Preference (js ''codestral:22b'')) example_world = (Inr (), w1)
          \<and> config (loadConfig (w1\<lparr>config := JNull\<rparr>))
              = JObj [(js ''model'', JStr (js ''codestral:22b''))])"
proof -
  have n: "write_error example_world = None" by (simp add: example_world_def)
  from save_then_load [OF n, of "Preference (js ''codestral:22b'')"] obtain w1
    where s: "saveConfig (Preference (js ''codestral:22b'')) example_world = (Inr (), w1)"
      and l: "\<forall>v. config_file v = config_file w1
                \<longrightarrow> config (loadConfig v) = pref_value (Preference (js ''codestral:22b''))"
    by blast
  have "config_file (w1\<lparr>config := JNull\<rparr>) = config_file w1" by simp
  with l have "config (loadConfig (w1\<lparr>config := JNull\<rparr>))
               = pref_value (Preference (js ''codestral:22b''))" by blast
  with n s show ?thesis by (simp add: pref_value_def)
qed

section \<open>What a run can do, stage by stage\<close>

lemma steps_refl: "steps P w w"
  by (simp add: steps_def)

lemma steps_trans: "steps P a b \<Longrightarrow> steps P b c \<Longrightarrow> steps P a c"
  by (auto simp: steps_def)


lemma steps_emit: "P e \<Longrightarrow> steps P w (emit e w)"
  by (simp add: steps_def emit_def)

lemma steps_then_emit: "steps P w w' \<Longrightarrow> P e \<Longrightarrow> steps P w (emit e w')"
  by (auto simp: steps_def emit_def)

lemma steps_mono: "steps P w w' \<Longrightarrow> (\<And>e. P e \<Longrightarrow> Q e) \<Longrightarrow> steps Q w w'"
  by (auto simp: steps_def list_all_iff)

lemma steps_checkOllama: "checkOllama w = (b, w') \<Longrightarrow> P GetTags \<Longrightarrow> steps P w w'"
  by (auto simp: checkOllama_def next_tags_def steps_def emit_def split: tags_reply.splits)

lemma steps_getModels: "getModels w = (ms, w') \<Longrightarrow> P GetTags \<Longrightarrow> steps P w w'"
  by (auto simp: getModels_def next_tags_def steps_def emit_def split: tags_reply.splits)

lemma steps_prompt: "prompt q w = (r, w') \<Longrightarrow> (\<And>a. P (Asked q a)) \<Longrightarrow> steps P w w'"
  by (auto simp: prompt_def steps_def emit_def split: option.splits)

lemma steps_loadConfig: "P ReadFile \<Longrightarrow> steps P w (loadConfig w)"
  by (auto simp: loadConfig_def steps_def emit_def Let_def split: option.splits)

lemma steps_saveConfig: "saveConfig p w = (r, w') \<Longrightarrow> (\<And>c. P (WriteFile c)) \<Longrightarrow> steps P w w'"
  by (auto simp: saveConfig_def steps_def emit_def is_write_def Let_def split: option.splits)






lemma steps_read_instruction:
  "read_instruction ra w = (r, w') \<Longrightarrow> (\<And>a. P (Asked InstructionQuestion a)) \<Longrightarrow> steps P w w'"
  by (auto simp: read_instruction_def steps_refl split: if_splits intro: steps_prompt)



lemma steps_select_loop_snd:
  assumes "select_loop models w = Some y"
  shows "steps resolve_event w (snd y)"
proof (rule select_loop.raw_induct
    [where P = "\<lambda>models w y. steps resolve_event w (snd y)", OF _ assms])
  fix loop :: "jsstring list \<Rightarrow> world \<Rightarrow> ((halt + jsstring) \<times> world) option"
    and models w y
  assume IH: "\<And>models w y. loop models w = Some y \<Longrightarrow> steps resolve_event w (snd y)"
    and body: "(case prompt SelectQuestion w of
                  (Inl h, w1) \<Rightarrow> Some (Inl h, w1)
                | (Inr choice, w1) \<Rightarrow>
                    if valid_choice models choice then Some (Inr (chosen models choice), w1)
                    else loop models (emit (Print InvalidSelection) w1)) = Some y"
  obtain r1 w1 where p: "prompt SelectQuestion w = (r1, w1)" by (cases "prompt SelectQuestion w")
  have s1: "steps resolve_event w w1" by (rule steps_prompt [OF p]) simp
  show "steps resolve_event w (snd y)"
  proof (cases r1)
    case (Inl h)
    with body p s1 show ?thesis by auto
  next
    case (Inr choice)
    show ?thesis
    proof (cases "valid_choice models choice")
      case True
      with body p Inr s1 show ?thesis by auto
    next
      case False
      with body p Inr have "loop models (emit (Print InvalidSelection) w1) = Some y"
        by simp
      then have "steps resolve_event (emit (Print InvalidSelection) w1) (snd y)"
        by (rule IH)
      with s1 show ?thesis by (auto simp: steps_def emit_def)
    qed
  qed
qed

lemma steps_select_loop:
  assumes "select_loop models w = Some (r, w')"
  shows "steps resolve_event w w'"
  using steps_select_loop_snd [OF assms] by simp

lemma steps_selectModel:
  assumes "selectModel models w = Some (r, w')"
  shows "steps resolve_event w w'"
  using steps_select_loop [OF assms [unfolded selectModel_def]]
  by (auto simp: steps_def emit_def)

lemma steps_setup_flow:
  assumes "setup_flow w = Some (r, w')"
  shows "steps resolve_event w w'"
proof -
  obtain ok w1 where c: "checkOllama (emit (Print Welcome) w) = (ok, w1)"
    by (cases "checkOllama (emit (Print Welcome) w)")
  have "steps resolve_event (emit (Print Welcome) w) w1" by (rule steps_checkOllama [OF c]) simp
  then have s1: "steps resolve_event w w1" by (auto simp: steps_def emit_def)
  show ?thesis
  proof (cases ok)
    case False
    with assms c have "w' = emit (Print SetupNotRunning) w1" by (simp add: setup_flow_def)
    with s1 show ?thesis by (simp add: steps_then_emit)
  next
    case True
    obtain models w2 where g: "getModels w1 = (models, w2)" by (cases "getModels w1")
    have "steps resolve_event w1 w2" by (rule steps_getModels [OF g]) simp
    with s1 have s2: "steps resolve_event w w2" by (rule steps_trans)
    show ?thesis
    proof (cases "length models = 0")
      case none: True
      with assms c True g have "w' = emit (Print NoModels) w2" by (simp add: setup_flow_def)
      with s2 show ?thesis by (simp add: steps_then_emit)
    next
      case False
      with assms c True g obtain r3 w3 where m: "selectModel models w2 = Some (r3, w3)"
        by (cases "selectModel models w2") (auto simp: setup_flow_def)
      from s2 steps_selectModel [OF m] have s3: "steps resolve_event w w3" by (rule steps_trans)
      show ?thesis
      proof (cases r3)
        case (Inl h)
        with assms c True g False m s3 show ?thesis by (simp add: setup_flow_def)
      next
        case (Inr selectedModel)
        obtain r4 w4 where sv: "saveConfig (Preference selectedModel) w3 = (r4, w4)"
          by (cases "saveConfig (Preference selectedModel) w3")
        have "steps resolve_event w3 w4" by (rule steps_saveConfig [OF sv]) simp
        with s3 have s4: "steps resolve_event w w4" by (rule steps_trans)
        from assms c True g False m Inr sv
        have "w' = w4 \<or> w' = emit (Print (SetupComplete selectedModel)) w4"
          by (cases r4) (auto simp: setup_flow_def)
        with s4 show ?thesis by (auto simp: steps_then_emit)
      qed
    qed
  qed
qed

lemma steps_first_time_setup:
  assumes "first_time_setup ov w = Some (r, w')"
  shows "steps resolve_event w w'"
proof (cases "\<not> truthy (config w) \<and> ov = None")
  case False
  with assms show ?thesis by (auto simp: first_time_setup_def steps_refl)
next
  case True
  with assms obtain r1 w1 where s: "setup_flow (emit (Print NoConfiguration) w) = Some (r1, w1)"
    by (cases "setup_flow (emit (Print NoConfiguration) w)") (auto simp: first_time_setup_def)
  from assms True s have "w' = w1 \<or> w' = emit (Print Separator) w1"
    by (cases r1) (auto simp: first_time_setup_def)
  with steps_setup_flow [OF s] show ?thesis by (auto simp: steps_def emit_def)
qed

lemma steps_use_override: "steps P w (use_override ov w)"
  by (cases ov) (simp_all add: use_override_def steps_def)

lemma steps_resolve_model:
  assumes "resolve_model w = Some (r, w')"
  shows "steps resolve_event w w'"
proof -
  obtain ov ra where m: "model_override (args (loadConfig w)) = (ov, ra)"
    by (cases "model_override (args (loadConfig w))")
  have s0: "steps resolve_event w (loadConfig w)" by (rule steps_loadConfig) simp
  from assms m obtain r1 w1 where f: "first_time_setup ov (loadConfig w) = Some (r1, w1)"
    by (cases "first_time_setup ov (loadConfig w)") (auto simp: resolve_model_def Let_def)
  from s0 steps_first_time_setup [OF f] have s1: "steps resolve_event w w1" by (rule steps_trans)
  from assms m f have "w' = w1 \<or> w' = use_override ov w1"
    by (cases r1) (auto simp: resolve_model_def Let_def)
  with s1 steps_use_override [of resolve_event w1 ov] show ?thesis
    by (auto intro: steps_trans)
qed

lemma steps_Langterm: "(\<And>m. P (Print m)) \<Longrightarrow> steps P w (Langterm w)"
  by (simp add: Langterm_def steps_def emit_def Let_def)

lemma filter_none: "list_all P es \<Longrightarrow> (\<And>e. P e \<Longrightarrow> \<not> Q e) \<Longrightarrow> filter Q es = []"
  by (induction es) auto

lemma resolve_not_generate: "resolve_event e \<Longrightarrow> \<not> is_generate e"
  by (cases e) (simp_all add: is_generate_def)

text \<open>
  C6: when the run reaches the availability gate and the probe fails there, the process
  exits with code 1 and the whole run has sent no request to the generation endpoint.
\<close>

theorem gate_failure_exits:
  assumes "scan_flags (args w) = None"
    and "resolve_model (Langterm w) = Some (Inr remainingArgs, w1)"
    and "fst (checkOllama w1) = False"
  shows "\<exists>w2. main w = Some (Finished 1, w2)
           \<and> filter is_generate (trace w2) = filter is_generate (trace w)"
proof -
  obtain w1' where c: "checkOllama w1 = (False, w1')"
    using assms(3) by (cases "checkOllama w1") auto
  let ?w2 = "emit (Print GateNotRunning) w1'"
  have a: "args (Langterm w) = args w" by (simp add: Langterm_def emit_def Let_def)
  have "run (Langterm w) = Some (Inl (Exit 1), ?w2)"
    using assms(1,2) c by (simp add: run_def a from_gate_def)
  then have m: "main w = Some (Finished 1, ?w2)" by (simp add: main_def)
  have "steps (\<lambda>e. \<not> is_generate e) w (Langterm w)"
    by (rule steps_Langterm) (simp add: is_generate_def)
  moreover have "steps (\<lambda>e. \<not> is_generate e) (Langterm w) w1"
    using steps_resolve_model [OF assms(2)] by (rule steps_mono) (rule resolve_not_generate)
  moreover have "steps (\<lambda>e. \<not> is_generate e) w1 ?w2"
    by (rule steps_then_emit, rule steps_checkOllama [OF c]) (simp_all add: is_generate_def)
  ultimately have "steps (\<lambda>e. \<not> is_generate e) w ?w2" by (blast intro: steps_trans)
  then have "filter is_generate (trace ?w2) = filter is_generate (trace w)"
    by (auto simp: steps_def dest: filter_none [where Q = is_generate])
  with m show ?thesis by blast
qed


lemmas run_defs = main_def Langterm_def run_def resolve_model_def loadConfig_def
  model_override_def first_time_setup_def use_override_def from_gate_def checkOllama_def
  next_tags_def read_instruction_def catch_block_def try_block_def generateCommand_def
  confirm_and_execute_def prompt_def executeCommand_def emit_def

lemma example_args: "scan_flags (args example_world) = None"
  by (simp add: example_world_def js_def)

lemma example_override:
  "model_override (args example_world) = (Some (js ''mistral:7b''), [js ''list'', js ''files''])"
  by (simp add: example_world_def model_override_def js_def)

lemma args_loaded: "args (Langterm w) = args w" "args (loadConfig (Langterm w)) = args w"
  by (simp_all add: Langterm_def loadConfig_def emit_def Let_def split: option.splits)

lemma resolve_with_override:
  assumes "model_override (args w) = (Some m, ra)"
  shows "resolve_model (Langterm w) = Some (Inr ra, use_override (Some m) (loadConfig (Langterm w)))"
  using assms by (simp add: resolve_model_def Let_def args_loaded first_time_setup_def)

lemma tags_resolved: "tags (use_override ov (loadConfig (Langterm w))) = tags w"
  by (simp add: use_override_def loadConfig_def Langterm_def emit_def Let_def split: option.splits)

theorem gate_failure_exits_witness:
  "scan_flags (args (example_world\<lparr>tags := \<lambda>n. NoReply\<rparr>)) = None
   \<and> (\<exists>w2. main (example_world\<lparr>tags := \<lambda>n. NoReply\<rparr>) = Some (Finished 1, w2)
          \<and> filter is_generate (trace w2) = [])"
proof -
  let ?w = "example_world\<lparr>tags := \<lambda>n. NoReply\<rparr>"
  let ?w1 = "use_override (Some (js ''mistral:7b'')) (loadConfig (Langterm ?w))"
  have f: "scan_flags (args ?w) = None" using example_args by simp
  have o: "model_override (args ?w) = (Some (js ''mistral:7b''), [js ''list'', js ''files''])"
    using example_override by simp
  have c: "fst (checkOllama ?w1) = False"
    by (simp add: checkOllama_def next_tags_def tags_resolved)
  from gate_failure_exits [OF f resolve_with_override [OF o] c] f show ?thesis
    by (simp add: example_world_def)
qed





section \<open>Events before the \<open>try\<close> block\<close>

lemma early_not_goes_on: "early e \<Longrightarrow> \<not> goes_on e"
  by (cases e rule: goes_on.cases) auto

lemma early_not_suggested: "list_all early es \<Longrightarrow> Print (Suggested c) \<notin> set es"
  by (induction es) auto

lemma early_not_generate: "list_all early es \<Longrightarrow> PostGenerate m i \<notin> set es"
  by (induction es) auto

lemma early_not_confirm: "list_all early es \<Longrightarrow> Asked ConfirmQuestion a \<notin> set es"
  by (induction es) auto

lemma early_not_is_generate: "early e \<Longrightarrow> \<not> is_generate e"
  by (cases e) (simp_all add: is_generate_def)

lemma early_not_is_spawn: "early e \<Longrightarrow> \<not> is_spawn e"
  by (cases e) (simp_all add: is_spawn_def)

lemma early_not_is_suggestion: "early e \<Longrightarrow> \<not> is_suggestion e"
  by (cases e rule: is_suggestion.cases) auto

lemma resolve_early: "resolve_event e \<Longrightarrow> early e"
  by (cases e; cases "case e of Print m \<Rightarrow> m | _ \<Rightarrow> Welcome") auto

lemma early_Langterm: "steps early w (Langterm w)"
  by (simp add: steps_def Langterm_def emit_def Let_def is_write_def)

section \<open>The confirmation gesture\<close>

lemma cleanup_Inr: "cleanup f = Inr c \<Longrightarrow> \<exists>raw. f = RString raw \<and> c = extract_command raw"
  by (cases f) auto

lemma gesture_try_catch:
  assumes "catch_block (try_block i w) = (r, w')"
  shows "\<exists>es. trace w' = trace w @ es \<and> gesture w r es"
  using assms
  by (auto simp: try_block_def generateCommand_def confirm_and_execute_def prompt_def
      executeCommand_def catch_block_def emit_def gesture_def is_spawn_def is_generate_def
      Let_def
      split: sum.splits gen_reply.splits option.splits if_splits child_end.splits
        prod.splits halt.splits dest!: cleanup_Inr)

lemma gesture_after_early:
  assumes "steps early w v" and "trace v' = trace v @ es" and "gesture v r es"
  shows "\<exists>es'. trace v' = trace w @ es' \<and> gesture w r es'"
proof -
  from assms(1) obtain pre where pre: "trace v = trace w @ pre" "list_all early pre"
    and g: "generate v = generate w"
    by (auto simp: steps_def)
  have "filter is_spawn pre = []"
    using pre(2) by (rule filter_none) (rule early_not_is_spawn)
  moreover have "filter is_generate pre = []"
    using pre(2) by (rule filter_none) (rule early_not_is_generate)
  moreover have "filter is_suggestion pre = []"
    using pre(2) by (rule filter_none) (rule early_not_is_suggestion)
  ultimately have "gesture w r (pre @ es)"
    using assms(3) g early_not_confirm [OF pre(2)] by (auto simp: gesture_def)
  with assms(2) pre(1) show ?thesis by simp
qed

lemma gesture_early: "list_all early es \<Longrightarrow> gesture w r es"
  by (auto simp: gesture_def dest: early_not_confirm)

lemma gesture_steps_early:
  assumes "steps early w v"
  shows "\<exists>es. trace v = trace w @ es \<and> gesture w r es"
  using assms by (auto simp: steps_def intro: gesture_early)

lemma gesture_from_gate:
  assumes "from_gate ra w = (r, w')"
  shows "\<exists>es. trace w' = trace w @ es \<and> gesture w r es"
proof -
  obtain ok w1 where c: "checkOllama w = (ok, w1)" by (cases "checkOllama w")
  have s1: "steps early w w1" by (rule steps_checkOllama [OF c]) simp
  show ?thesis
  proof (cases ok)
    case False
    with assms c have "w' = emit (Print GateNotRunning) w1" by (simp add: from_gate_def)
    with s1 have "steps early w w'" by (simp add: steps_then_emit)
    then show ?thesis by (rule gesture_steps_early)
  next
    case True
    obtain r2 w2 where i: "read_instruction ra w1 = (r2, w2)" by (cases "read_instruction ra w1")
    have "steps early w1 w2" by (rule steps_read_instruction [OF i]) simp
    with s1 have s2: "steps early w w2" by (rule steps_trans)
    show ?thesis
    proof (cases r2)
      case (Inl h)
      with assms c True i have "w' = w2" by (simp add: from_gate_def)
      with s2 show ?thesis by (simp add: gesture_steps_early)
    next
      case (Inr userInput)
      show ?thesis
      proof (cases "trim userInput = []")
        case empty: True
        with assms c True i Inr have "w' = emit (Print NoInput) w2" by (simp add: from_gate_def)
        with s2 have "steps early w w'" by (simp add: steps_then_emit)
        then show ?thesis by (rule gesture_steps_early)
      next
        case False
        let ?w3 = "emit (Print Thinking) w2"
        from assms c True i Inr False have t: "catch_block (try_block userInput ?w3) = (r, w')"
          by (simp add: from_gate_def)
        from gesture_try_catch [OF t] obtain es
          where es: "trace w' = trace ?w3 @ es" "gesture ?w3 r es" by blast
        have "steps early w ?w3" using s2 by (simp add: steps_then_emit)
        from gesture_after_early [OF this es] show ?thesis .
      qed
    qed
  qed
qed

lemma gesture_run:
  assumes "run w = Some (r, w')"
  shows "\<exists>es. trace w' = trace w @ es \<and> gesture w r es"
proof (cases "scan_flags (args w)")
  case None
  with assms obtain r1 w1 where res: "resolve_model w = Some (r1, w1)"
    by (cases "resolve_model w") (auto simp: run_def)
  have s1: "steps early w w1"
    using steps_resolve_model [OF res] by (rule steps_mono) (rule resolve_early)
  show ?thesis
  proof (cases r1)
    case (Inl h)
    with assms None res have "w' = w1" by (simp add: run_def)
    with s1 show ?thesis by (simp add: gesture_steps_early)
  next
    case (Inr ra)
    with assms None res have "from_gate ra w1 = (r, w')" by (simp add: run_def)
    from gesture_from_gate [OF this] obtain es
      where "trace w' = trace w1 @ es" "gesture w1 r es" by blast
    from gesture_after_early [OF s1 this] show ?thesis .
  qed
next
  case (Some f)
  have "steps early w w'"
  proof (cases f)
    case HelpFlag
    with assms Some show ?thesis by (auto simp: run_def steps_emit)
  next
    case VersionFlag
    with assms Some show ?thesis by (auto simp: run_def steps_emit)
  next
    case SetupFlag
    with assms Some have "setup_flow w = Some (r, w')" by (simp add: run_def)
    from steps_setup_flow [OF this] show ?thesis by (rule steps_mono) (rule resolve_early)
  qed
  then show ?thesis by (rule gesture_steps_early)
qed

text \<open>
  C3: in a run from an empty trace in which the confirmation question is answered, exactly
  one request was sent to the generation endpoint, its reply was a string, and the one
  command shown as the suggestion is the extraction of that reply. An empty answer is
  followed by the spawning of exactly that command and of nothing else; any other answer
  ends the run with the cancellation notice and exit code 0, without any command being
  spawned.
\<close>

theorem confirmation_gesture:
  assumes "main w = Some (out, w')"
    and "trace w = []"
    and "Asked ConfirmQuestion (Some answer) \<in> set (trace w')"
  shows "\<exists>m i raw. filter is_generate (trace w') = [PostGenerate m i]
           \<and> generate w m i = GenData (RString raw)
           \<and> filter is_suggestion (trace w') = [Print (Suggested (extract_command raw))]
           \<and> (answer = [] \<longrightarrow> filter is_spawn (trace w') = [Spawn (extract_command raw)])
           \<and> (answer \<noteq> [] \<longrightarrow>
                out = Finished 0 \<and> filter is_spawn (trace w') = []
                \<and> Print Cancelled \<in> set (trace w'))"
proof -
  obtain r1 v1 where run: "run (Langterm w) = Some (r1, v1)"
    using assms(1) by (cases "run (Langterm w)") (auto simp: main_def)
  from gesture_run [OF run] obtain es0
    where "trace v1 = trace (Langterm w) @ es0" "gesture (Langterm w) r1 es0" by blast
  with early_Langterm [of w] obtain es where es: "trace v1 = es" "gesture w r1 es"
    using gesture_after_early [of w "Langterm w" v1 es0 r1] assms(2) by auto
  from assms(1) run es(1) have fin:
    "(out = Finished 0 \<and> r1 = Inr () \<and> trace w' = es)
     \<or> (r1 \<noteq> Inr () \<and> (trace w' = es \<or> (\<exists>f. trace w' = es @ [Print (FatalError f)])))"
    by (cases r1; cases "case r1 of Inl h \<Rightarrow> h | _ \<Rightarrow> Unanswered")
       (auto simp: main_def emit_def)
  with assms(3) have asked: "Asked ConfirmQuestion (Some answer) \<in> set es" by auto
  from fin have same: "filter is_spawn (trace w') = filter is_spawn es"
    "filter is_generate (trace w') = filter is_generate es"
    "filter is_suggestion (trace w') = filter is_suggestion es"
    by (auto simp: is_spawn_def is_generate_def)
  from es(2) asked obtain m i raw where g: "filter is_generate es = [PostGenerate m i]"
    "generate w m i = GenData (RString raw)"
    "filter is_suggestion es = [Print (Suggested (extract_command raw))]"
    and a: "if answer = [] then filter is_spawn es = [Spawn (extract_command raw)]
            else r1 = Inr () \<and> filter is_spawn es = [] \<and> Print Cancelled \<in> set es"
    unfolding gesture_def by blast
  have "answer = [] \<longrightarrow> filter is_spawn (trace w') = [Spawn (extract_command raw)]"
    using a same(1) by simp
  moreover have "answer \<noteq> [] \<longrightarrow>
      out = Finished 0 \<and> filter is_spawn (trace w') = [] \<and> Print Cancelled \<in> set (trace w')"
    using a same(1) fin by auto
  ultimately show ?thesis using g same(2,3) by auto
qed

theorem confirmation_gesture_witness:
  "trace example_world = []
   \<and> (\<exists>out w'. main example_world = Some (out, w')
         \<and> Asked ConfirmQuestion (Some []) \<in> set (trace w')
         \<and> filter is_suggestion (trace w') = [Print (Suggested (js ''ls -la''))]
         \<and> filter is_spawn (trace w') = [Spawn (js ''ls -la'')])
   \<and> (\<exists>out w'. main (example_world\<lparr>stdin := \<lambda>n. Some (js ''n'')\<rparr>) = Some (out, w')
         \<and> Asked ConfirmQuestion (Some (js ''n'')) \<in> set (trace w')
         \<and> out = Finished 0 \<and> filter is_spawn (trace w') = [])"
proof -
  let ?no = "example_world\<lparr>stdin := \<lambda>n. Some (js ''n'')\<rparr>"
  note eval = run_defs example_world_def js_def Let_def trim_def is_ws_def extract_command_def
    includes_backtick_def backtick_def
  have t: "trace example_world = []" "trace ?no = []" by (simp_all add: example_world_def)
  obtain out w' where yes: "main example_world = Some (out, w')"
    and asked: "Asked ConfirmQuestion (Some []) \<in> set (trace w')"
    by (simp add: eval)
  obtain out2 w2 where no: "main ?no = Some (out2, w2)"
    and asked2: "Asked ConfirmQuestion (Some (js ''n'')) \<in> set (trace w2)"
    by (simp add: eval)
  have g: "generate example_world m i = GenData (RString raw) \<Longrightarrow> extract_command raw = js ''ls -la''"
    for m i raw
    by (auto simp: example_world_def extract_command_def includes_backtick_def backtick_def js_def)
  from confirmation_gesture [OF yes t(1) asked] g
  have "filter is_suggestion (trace w') = [Print (Suggested (js ''ls -la''))]
        \<and> filter is_spawn (trace w') = [Spawn (js ''ls -la'')]" by auto
  moreover from confirmation_gesture [OF no t(2) asked2]
  have "out2 = Finished 0 \<and> filter is_spawn (trace w2) = []" by (auto simp: js_def)
  ultimately show ?thesis using t yes asked no asked2 by blast
qed

section \<open>The check on the extracted command\<close>

lemma checked_try_catch:
  assumes "catch_block (try_block i w) = (r, w')"
  shows "\<exists>es. trace w' = trace w @ es \<and> checked w r es"
  using assms
  by (auto simp: try_block_def generateCommand_def confirm_and_execute_def prompt_def
      executeCommand_def catch_block_def emit_def checked_def Let_def
      split: sum.splits gen_reply.splits option.splits if_splits child_end.splits
        prod.splits halt.splits dest!: cleanup_Inr)

lemma checked_early: "list_all early es \<Longrightarrow> checked w r es"
  by (auto simp: checked_def dest: early_not_suggested early_not_generate)

lemma checked_steps_early:
  assumes "steps early w v"
  shows "\<exists>es. trace v = trace w @ es \<and> checked w r es"
  using assms by (auto simp: steps_def intro: checked_early)

lemma checked_after_early:
  assumes "steps early w v" and "trace v' = trace v @ es" and "checked v r es"
  shows "\<exists>es'. trace v' = trace w @ es' \<and> checked w r es'"
proof -
  from assms(1) obtain pre where pre: "trace v = trace w @ pre" "list_all early pre"
    and g: "generate v = generate w"
    by (auto simp: steps_def)
  have "filter goes_on pre = []"
    using pre(2) by (rule filter_none) (rule early_not_goes_on)
  with assms(3) g early_not_suggested [OF pre(2)] early_not_generate [OF pre(2)]
  have "checked w r (pre @ es)"
    by (auto simp: checked_def)
  with assms(2) pre(1) show ?thesis by simp
qed

lemma checked_from_gate:
  assumes "from_gate ra w = (r, w')"
  shows "\<exists>es. trace w' = trace w @ es \<and> checked w r es"
proof -
  obtain ok w1 where c: "checkOllama w = (ok, w1)" by (cases "checkOllama w")
  have s1: "steps early w w1" by (rule steps_checkOllama [OF c]) simp
  show ?thesis
  proof (cases ok)
    case False
    with assms c have "w' = emit (Print GateNotRunning) w1" by (simp add: from_gate_def)
    with s1 have "steps early w w'" by (simp add: steps_then_emit)
    then show ?thesis by (rule checked_steps_early)
  next
    case True
    obtain r2 w2 where i: "read_instruction ra w1 = (r2, w2)" by (cases "read_instruction ra w1")
    have "steps early w1 w2" by (rule steps_read_instruction [OF i]) simp
    with s1 have s2: "steps early w w2" by (rule steps_trans)
    show ?thesis
    proof (cases r2)
      case (Inl h)
      with assms c True i have "w' = w2" by (simp add: from_gate_def)
      with s2 show ?thesis by (simp add: checked_steps_early)
    next
      case (Inr userInput)
      show ?thesis
      proof (cases "trim userInput = []")
        case empty: True
        with assms c True i Inr have "w' = emit (Print NoInput) w2" by (simp add: from_gate_def)
        with s2 have "steps early w w'" by (simp add: steps_then_emit)
        then show ?thesis by (rule checked_steps_early)
      next
        case False
        let ?w3 = "emit (Print Thinking) w2"
        from assms c True i Inr False have t: "catch_block (try_block userInput ?w3) = (r, w')"
          by (simp add: from_gate_def)
        from checked_try_catch [OF t] obtain es
          where es: "trace w' = trace ?w3 @ es" "checked ?w3 r es" by blast
        have "steps early w ?w3" using s2 by (simp add: steps_then_emit)
        from checked_after_early [OF this es] show ?thesis .
      qed
    qed
  qed
qed

lemma checked_run:
  assumes "run w = Some (r, w')"
  shows "\<exists>es. trace w' = trace w @ es \<and> checked w r es"
proof (cases "scan_flags (args w)")
  case None
  with assms obtain r1 w1 where res: "resolve_model w = Some (r1, w1)"
    by (cases "resolve_model w") (auto simp: run_def)
  have s1: "steps early w w1"
    using steps_resolve_model [OF res] by (rule steps_mono) (rule resolve_early)
  show ?thesis
  proof (cases r1)
    case (Inl h)
    with assms None res have "w' = w1" by (simp add: run_def)
    with s1 show ?thesis by (simp add: checked_steps_early)
  next
    case (Inr ra)
    with assms None res have "from_gate ra w1 = (r, w')" by (simp add: run_def)
    from checked_from_gate [OF this] obtain es
      where "trace w' = trace w1 @ es" "checked w1 r es" by blast
    from checked_after_early [OF s1 this] show ?thesis .
  qed
next
  case (Some f)
  have "steps early w w'"
  proof (cases f)
    case HelpFlag
    with assms Some show ?thesis by (auto simp: run_def steps_emit)
  next
    case VersionFlag
    with assms Some show ?thesis by (auto simp: run_def steps_emit)
  next
    case SetupFlag
    with assms Some have "setup_flow w = Some (r, w')" by (simp add: run_def)
    from steps_setup_flow [OF this] show ?thesis by (rule steps_mono) (rule resolve_early)
  qed
  then show ?thesis by (rule checked_steps_early)
qed

lemma extracted_without_backtick:
  assumes "backtick \<notin> set raw
           \<or> (\<exists>pre mid post. raw = pre @ backtick # mid @ backtick # post
                 \<and> backtick \<notin> set pre \<and> backtick \<notin> set mid \<and> mid \<noteq> [])"
  shows "backtick \<notin> set (extract_command raw)"
  using assms
proof
  assume n: "backtick \<notin> set raw"
  then have "extract_command raw = trim raw"
    by (simp add: extract_command_def includes_backtick_def remove_fences_no_tick)
  moreover have "set (trim raw) \<subseteq> set raw"
    using set_dropWhileD [of _ is_ws "rev (dropWhile is_ws raw)"] set_dropWhileD [of _ is_ws raw]
    by (auto simp: trim_def)
  ultimately show ?thesis using n by auto
next
  assume "\<exists>pre mid post. raw = pre @ backtick # mid @ backtick # post
            \<and> backtick \<notin> set pre \<and> backtick \<notin> set mid \<and> mid \<noteq> []"
  then obtain pre mid post where "raw = pre @ backtick # mid @ backtick # post"
    "backtick \<notin> set pre" "backtick \<notin> set mid" "mid \<noteq> []" by blast
  then show ?thesis
    by (simp add: extract_command_def includes_backtick_def match_first_span)
qed

text \<open>
  C2, as amended: the extracted command holds no backtick, and so no fence marker, when the
  response holds no backtick or when its first backtick-delimited span has a non-empty
  interior. In a run from an empty trace, a command that is suggested is neither empty nor
  the string \<open>null\<close>; and when the extraction of the reply gives the empty string or
  \<open>null\<close>, the run ends as a generation failure: exit code 1, the failure line printed,
  nothing suggested, no confirmation asked for, nothing spawned.
\<close>

theorem extracted_command_checked:
  assumes "main w = Some (out, w')" and "trace w = []"
  shows "(backtick \<notin> set raw
            \<or> (\<exists>pre mid post. raw = pre @ backtick # mid @ backtick # post
                  \<and> backtick \<notin> set pre \<and> backtick \<notin> set mid \<and> mid \<noteq> [])
          \<longrightarrow> backtick \<notin> set (extract_command raw))
         \<and> (\<forall>c. Print (Suggested c) \<in> set (trace w') \<longrightarrow> c \<noteq> [] \<and> c \<noteq> js ''null'')
         \<and> (\<forall>m i reply. PostGenerate m i \<in> set (trace w')
                \<and> generate w m i = GenData (RString reply)
                \<and> (extract_command reply = [] \<or> extract_command reply = js ''null'') \<longrightarrow>
              out = Finished 1 \<and> Print FailedToGenerate \<in> set (trace w')
              \<and> filter goes_on (trace w') = [])"
proof -
  obtain r1 v1 where run: "run (Langterm w) = Some (r1, v1)"
    using assms(1) by (cases "run (Langterm w)") (auto simp: main_def)
  note early_Langterm [of w]
  moreover from checked_run [OF run] obtain es0
    where "trace v1 = trace (Langterm w) @ es0" "checked (Langterm w) r1 es0" by blast
  ultimately obtain es where es: "trace v1 = es" "checked w r1 es"
    using checked_after_early [of w "Langterm w" v1 es0 r1] assms(2) by auto
  from assms(1) run es(1) have fin:
    "(r1 = Inl (Exit 1) \<longrightarrow> out = Finished 1)
     \<and> (trace w' = es \<or> (\<exists>f. trace w' = es @ [Print (FatalError f)]))"
    by (cases r1; cases "case r1 of Inl h \<Rightarrow> h | _ \<Rightarrow> Unanswered")
       (auto simp: main_def emit_def)
  then have same: "Print (Suggested c) \<in> set (trace w') \<longleftrightarrow> Print (Suggested c) \<in> set es"
    "PostGenerate m i \<in> set (trace w') \<longleftrightarrow> PostGenerate m i \<in> set es"
    "Print FailedToGenerate \<in> set es \<Longrightarrow> Print FailedToGenerate \<in> set (trace w')"
    "filter goes_on (trace w') = filter goes_on es" for c m i
    by auto
  from es(2) fin show ?thesis
    unfolding same checked_def using extracted_without_backtick [of raw] same(3)
    by blast
qed


theorem extracted_command_checked_witness:
  "trace (example_world\<lparr>generate := \<lambda>m i. GenData (RString (js ''null''))\<rparr>) = []
   \<and> (\<exists>out w'. main (example_world\<lparr>generate := \<lambda>m i. GenData (RString (js ''null''))\<rparr>)
                   = Some (out, w')
         \<and> PostGenerate (Some (JStr (js ''mistral:7b''))) (js ''list files'') \<in> set (trace w')
         \<and> out = Finished 1 \<and> Print FailedToGenerate \<in> set (trace w')
         \<and> filter goes_on (trace w') = [])
   \<and> backtick \<notin> set (extract_command (js ''Run `ls -la` now''))"
proof -
  let ?w = "example_world\<lparr>generate := \<lambda>m i. GenData (RString (js ''null''))\<rparr>"
  let ?m = "Some (JStr (js ''mistral:7b''))"
  note eval = run_defs example_world_def js_def Let_def trim_def is_ws_def extract_command_def
    includes_backtick_def backtick_def
  have t: "trace ?w = []" by (simp add: example_world_def)
  obtain out w' where m: "main ?w = Some (out, w')"
    and p: "PostGenerate ?m (js ''list files'') \<in> set (trace w')"
    by (simp add: eval)
  have g: "generate ?w ?m (js ''list files'') = GenData (RString (js ''null''))"
    by (simp add: example_world_def)
  have x: "extract_command (js ''null'') = js ''null''"
    by (simp add: extract_command_def includes_backtick_def backtick_def js_def trim_def is_ws_def)
  have span: "\<exists>pre mid post. js ''Run `ls -la` now'' = pre @ backtick # mid @ backtick # post
                \<and> backtick \<notin> set pre \<and> backtick \<notin> set mid \<and> mid \<noteq> []"
    by (intro exI [of _ "js ''Run ''"] exI [of _ "js ''ls -la''"] exI [of _ "js '' now''"])
       (simp add: js_def backtick_def)
  from extracted_command_checked [OF m t, of "js ''Run `ls -la` now''"] p g x span
  have "out = Finished 1 \<and> Print FailedToGenerate \<in> set (trace w')
        \<and> filter goes_on (trace w') = []
        \<and> backtick \<notin> set (extract_command (js ''Run `ls -la` now''))"
    by blast
  with t m p show ?thesis by blast
qed

text \<open>
  C2 as first stated, with a command free of backticks, fails on a reply whose only
  backtick is never closed: the reply is kept as it is, suggested and, on Enter, spawned.
\<close>

theorem unclosed_backtick_is_spawned:
  "map_option (\<lambda>(out, w). (out, filter is_spawn (trace w)))
     (main (example_world\<lparr>generate := \<lambda>m i. GenData (RString (js ''`ls -la''))\<rparr>))
   = Some (Finished 0, [Spawn (js ''`ls -la'')])"
  by (simp add: run_defs example_world_def js_def Let_def trim_def is_ws_def
      extract_command_def includes_backtick_def backtick_def is_spawn_def)

section \<open>The debug flag\<close>

lemma echoed_fields [simp]:
  "args (echoed e w) = args w" "config_file (echoed e w) = config_file w"
  "write_error (echoed e w) = write_error w" "tags (echoed e w) = tags w"
  "tags_n (echoed e w) = tags_n w" "stdin (echoed e w) = stdin w"
  "stdin_n (echoed e w) = stdin_n w" "generate (echoed e w) = generate w"
  "child (echoed e w) = child w" "config (echoed e w) = config w"
  "trace (echoed e w) = e # trace w"
  by (simp_all add: echoed_def)

lemma echoed_emit [simp]: "emit x (echoed e w) = echoed e (emit x w)"
  by (simp add: echoed_def emit_def)

lemma echoed_updates [simp]:
  "(echoed e w)\<lparr>config := c\<rparr> = echoed e (w\<lparr>config := c\<rparr>)"
  "(echoed e w)\<lparr>config_file := f\<rparr> = echoed e (w\<lparr>config_file := f\<rparr>)"
  "(echoed e w)\<lparr>tags_n := n\<rparr> = echoed e (w\<lparr>tags_n := n\<rparr>)"
  "(echoed e w)\<lparr>stdin_n := n\<rparr> = echoed e (w\<lparr>stdin_n := n\<rparr>)"
  by (simp_all add: echoed_def)

lemma echoed_loadConfig: "loadConfig (echoed e w) = echoed e (loadConfig w)"
  by (simp add: loadConfig_def Let_def split: option.splits)

lemma echoed_saveConfig: "saveConfig p (echoed e w) = apsnd (echoed e) (saveConfig p w)"
  by (simp add: saveConfig_def Let_def split: option.splits)

lemma echoed_next_tags: "next_tags (echoed e w) = apsnd (echoed e) (next_tags w)"
  by (simp add: next_tags_def)

lemma echoed_checkOllama: "checkOllama (echoed e w) = apsnd (echoed e) (checkOllama w)"
  by (simp add: checkOllama_def echoed_next_tags next_tags_def split: tags_reply.splits)

lemma echoed_getModels: "getModels (echoed e w) = apsnd (echoed e) (getModels w)"
  by (simp add: getModels_def echoed_next_tags next_tags_def split: tags_reply.splits)

lemma echoed_prompt: "prompt q (echoed e w) = apsnd (echoed e) (prompt q w)"
  by (simp add: prompt_def split: option.splits)

lemma echoed_generateCommand:
  "generateCommand i (echoed e w) = apsnd (echoed e) (generateCommand i w)"
  by (simp add: generateCommand_def Let_def split: sum.splits gen_reply.splits)

lemma echoed_executeCommand:
  "executeCommand c (echoed e w) = apsnd (echoed e) (executeCommand c w)"
  by (simp add: executeCommand_def Let_def split: child_end.splits)

lemma echoed_confirm:
  "confirm_and_execute c (echoed e w) = apsnd (echoed e) (confirm_and_execute c w)"
  by (cases "prompt ConfirmQuestion w")
     (simp add: confirm_and_execute_def echoed_prompt echoed_executeCommand split: sum.splits)

lemma echoed_try_block: "try_block i (echoed e w) = apsnd (echoed e) (try_block i w)"
  by (cases "generateCommand i w")
     (simp add: try_block_def echoed_generateCommand echoed_confirm split: sum.splits)

lemma echoed_catch_block: "catch_block (apsnd (echoed e) r) = apsnd (echoed e) (catch_block r)"
  by (cases r) (simp add: catch_block_def split: sum.splits halt.splits)

lemma echoed_read_instruction:
  "read_instruction ra (echoed e w) = apsnd (echoed e) (read_instruction ra w)"
  by (simp add: read_instruction_def echoed_prompt)

lemma echoed_from_gate: "from_gate ra (echoed e w) = apsnd (echoed e) (from_gate ra w)"
proof (cases "checkOllama w")
  case (Pair ok w1)
  show ?thesis
  proof (cases "read_instruction ra w1")
    case inner: (Pair r2 w2)
    with Pair show ?thesis
      by (simp add: from_gate_def echoed_checkOllama echoed_read_instruction echoed_try_block
          echoed_catch_block split: bool.splits sum.splits)
  qed
qed


lemma select_loop_echoed_forward:
  assumes "select_loop models w = Some y"
  shows "select_loop models (echoed e w) = Some (apsnd (echoed e) y)"
proof (rule select_loop.raw_induct
    [where P = "\<lambda>models w y. select_loop models (echoed e w) = Some (apsnd (echoed e) y)",
      OF _ assms])
  fix loop :: "jsstring list \<Rightarrow> world \<Rightarrow> ((halt + jsstring) \<times> world) option"
    and models w y
  assume IH: "\<And>models w y. loop models w = Some y
      \<Longrightarrow> select_loop models (echoed e w) = Some (apsnd (echoed e) y)"
    and body: "(case prompt SelectQuestion w of
                  (Inl h, w1) \<Rightarrow> Some (Inl h, w1)
                | (Inr choice, w1) \<Rightarrow>
                    if valid_choice models choice then Some (Inr (chosen models choice), w1)
                    else loop models (emit (Print InvalidSelection) w1)) = Some y"
  obtain r1 w1 where p: "prompt SelectQuestion w = (r1, w1)" by (cases "prompt SelectQuestion w")
  show "select_loop models (echoed e w) = Some (apsnd (echoed e) y)"
  proof (cases r1)
    case (Inl h)
    with body p show ?thesis
      by (subst select_loop.simps) (auto simp: echoed_prompt)
  next
    case (Inr choice)
    show ?thesis
    proof (cases "valid_choice models choice")
      case True
      with body p Inr show ?thesis
        by (subst select_loop.simps) (auto simp: echoed_prompt)
    next
      case False
      with body p Inr have "loop models (emit (Print InvalidSelection) w1) = Some y" by simp
      from IH [OF this] False p Inr show ?thesis
        by (subst select_loop.simps) (simp add: echoed_prompt)
    qed
  qed
qed

lemma select_loop_echoed_backward:
  assumes "select_loop models u = Some y"
  shows "\<forall>w. u = echoed e w \<longrightarrow> (\<exists>y'. select_loop models w = Some y')"
proof (rule select_loop.raw_induct
    [where P = "\<lambda>models u y. \<forall>w. u = echoed e w \<longrightarrow> (\<exists>y'. select_loop models w = Some y')",
      OF _ assms])
  fix loop :: "jsstring list \<Rightarrow> world \<Rightarrow> ((halt + jsstring) \<times> world) option"
    and models u y
  assume IH: "\<And>models u y. loop models u = Some y
      \<Longrightarrow> \<forall>w. u = echoed e w \<longrightarrow> (\<exists>y'. select_loop models w = Some y')"
    and body: "(case prompt SelectQuestion u of
                  (Inl h, w1) \<Rightarrow> Some (Inl h, w1)
                | (Inr choice, w1) \<Rightarrow>
                    if valid_choice models choice then Some (Inr (chosen models choice), w1)
                    else loop models (emit (Print InvalidSelection) w1)) = Some y"
  show "\<forall>w. u = echoed e w \<longrightarrow> (\<exists>y'. select_loop models w = Some y')"
  proof (intro allI impI)
    fix w
    assume u: "u = echoed e w"
    obtain r1 w1 where p: "prompt SelectQuestion w = (r1, w1)" by (cases "prompt SelectQuestion w")
    show "\<exists>y'. select_loop models w = Some y'"
    proof (cases r1)
      case (Inl h)
      with p show ?thesis by (subst select_loop.simps) simp
    next
      case (Inr choice)
      show ?thesis
      proof (cases "valid_choice models choice")
        case True
        with p Inr show ?thesis by (subst select_loop.simps) simp
      next
        case False
        with body p Inr u
        have "loop models (echoed e (emit (Print InvalidSelection) w1)) = Some y"
          by (simp add: echoed_prompt)
        from IH [OF this] obtain y' where "select_loop models (emit (Print InvalidSelection) w1) = Some y'"
          by blast
        with False p Inr show ?thesis by (subst select_loop.simps) simp
      qed
    qed
  qed
qed

lemma echoed_select_loop:
  "select_loop models (echoed e w) = map_option (apsnd (echoed e)) (select_loop models w)"
proof (cases "select_loop models w")
  case (Some y)
  then show ?thesis by (simp add: select_loop_echoed_forward)
next
  case None
  have "select_loop models (echoed e w) = None"
  proof (rule ccontr)
    assume "select_loop models (echoed e w) \<noteq> None"
    then obtain y where "select_loop models (echoed e w) = Some y" by auto
    from select_loop_echoed_backward [OF this, where e = e] None show False by auto
  qed
  with None show ?thesis by simp
qed

lemma echoed_selectModel:
  "selectModel models (echoed e w) = map_option (apsnd (echoed e)) (selectModel models w)"
  by (simp add: selectModel_def echoed_select_loop)

lemma echoed_setup_flow:
  "setup_flow (echoed e w) = map_option (apsnd (echoed e)) (setup_flow w)"
proof (cases "checkOllama (emit (Print Welcome) w)")
  case (Pair ok w1)
  show ?thesis
  proof (cases "getModels w1")
    case models: (Pair ms w2)
    show ?thesis
    proof (cases "selectModel ms w2")
      case None
      with Pair models show ?thesis
        by (simp add: setup_flow_def echoed_checkOllama echoed_getModels echoed_selectModel
            split: bool.splits)
    next
      case (Some y)
      obtain r3 w3 where y: "y = (r3, w3)" by (cases y)
      show ?thesis
      proof (cases r3)
        case (Inl h)
        with Pair models Some y show ?thesis
          by (simp add: setup_flow_def echoed_checkOllama echoed_getModels echoed_selectModel
              split: bool.splits)
      next
        case (Inr selectedModel)
        with Pair models Some y show ?thesis
          by (cases "saveConfig (Preference selectedModel) w3")
             (simp add: setup_flow_def echoed_checkOllama echoed_getModels echoed_selectModel
               echoed_saveConfig split: bool.splits sum.splits)
      qed
    qed
  qed
qed

lemma echoed_first_time_setup:
  "first_time_setup ov (echoed e w) = map_option (apsnd (echoed e)) (first_time_setup ov w)"
  by (simp add: first_time_setup_def echoed_setup_flow
      split: option.splits prod.splits sum.splits)

lemma echoed_use_override: "use_override ov (echoed e w) = echoed e (use_override ov w)"
  by (simp add: use_override_def split: option.splits)

lemma echoed_resolve_model:
  "resolve_model (echoed e w) = map_option (apsnd (echoed e)) (resolve_model w)"
  by (simp add: resolve_model_def Let_def echoed_loadConfig echoed_first_time_setup
      echoed_use_override split: option.splits prod.splits sum.splits)

lemma echoed_run: "run (echoed e w) = map_option (apsnd (echoed e)) (run w)"
  by (simp add: run_def echoed_setup_flow echoed_resolve_model echoed_from_gate
      split: option.splits flag.splits prod.splits sum.splits)

text \<open>
  C9: from an empty trace, the run with the debug flag set ends with the same outcome as
  the run without it, and in the same final state apart from the flag itself and one more
  event, the echo of the raw arguments, at the head of the trace.
\<close>

theorem debug_only_echoes:
  assumes "trace w = []"
  shows "main (w\<lparr>debug := True\<rparr>)
         = map_option (apsnd (echoed (Print (RawArgs (args w))))) (main (w\<lparr>debug := False\<rparr>))"
proof -
  have "Langterm (w\<lparr>debug := True\<rparr>)
        = echoed (Print (RawArgs (args w))) (Langterm (w\<lparr>debug := False\<rparr>))"
    using assms by (simp add: Langterm_def echoed_def emit_def Let_def)
  then show ?thesis
    by (simp add: main_def echoed_run split: option.splits prod.splits sum.splits halt.splits)
qed

theorem debug_only_echoes_witness:
  "trace example_world = []
   \<and> main (example_world\<lparr>debug := True\<rparr>)
       = map_option (apsnd (echoed (Print (RawArgs (args example_world)))))
           (main (example_world\<lparr>debug := False\<rparr>))"
proof -
  have t: "trace example_world = []" by (simp add: example_world_def)
  from debug_only_echoes [OF t] t show ?thesis by simp
qed

section \<open>A fenced reply\<close>

text \<open>
  A reply that is a fenced block starts with two adjacent backticks, so the extractor keeps
  it whole, and the run suggests it and, on Enter, spawns it with its fence markers.
\<close>

lemma fenced_reply_is_spawned:
  "map_option (\<lambda>(out, w). (out, filter is_spawn (trace w))) (main fenced_world)
   = Some (Finished 0, [Spawn (js ''```bash\<newline>ls -la\<newline>```'')])"
  by (simp add: run_defs fenced_world_def example_world_def js_def Let_def trim_def is_ws_def
      extract_command_def includes_backtick_def backtick_def is_spawn_def)

end
